theory Spec2Isabelle
  imports Main
begin

section \<open>The calling lobby of ts/components/CallingLobby.tsx\<close>

text \<open>
  The component is a function from its props and its one piece of hook state
  (\<open>isCallConnecting\<close>) to a tree of elements, together with two effect hooks and
  the handlers it attaches. The render is embedded as a pure function to a record
  of what each child receives; the callbacks of the props are embedded as the
  effects they emit, in the order the code calls them; the hook state, the queue
  of its pending updates, the pending effects and the attached listeners are an
  explicit instance record, advanced by a step function.
\<close>

subsection \<open>Props\<close>

text \<open>
  The fields of \<open>ConversationType\<close> that the component reads. The type is declared
  in another module: \<open>uuid\<close> and \<open>firstName\<close> are optional there, \<open>title\<close> is not.
\<close>

record ConversationType =
  uuid :: "string option"
  firstName :: "string option"
  title :: string

text \<open>The \<open>me\<close> prop: \<open>avatarPath\<close> and \<open>color\<close> are optional, \<open>uuid\<close> is required.\<close>

record MeType =
  me_avatarPath :: "string option"
  me_color :: "string option"
  me_uuid :: string

text \<open>
  The second argument of the localizer: absent, an array of strings, or an object
  of named replacement strings (kept in the order the code writes its keys).
\<close>

datatype replacements =
  NoValues
| ArrayValues "string list"
| NamedValues "(string \<times> string) list"

type_synonym LocalizerType = "string \<Rightarrow> replacements \<Rightarrow> string"

text \<open>
  A callback prop is known to the component only by its identity: the dependency
  arrays of the hooks compare identities, and a call reaches whichever function
  the calling closure captured.
\<close>

type_synonym fn_id = nat

text \<open>
  \<open>isGroupCall\<close> and \<open>isCallFull\<close> are destructured with the default \<open>false\<close>, which
  JavaScript applies exactly when the property is \<open>undefined\<close>: \<open>None\<close> here.
  \<open>availableCameras\<close> is only measured, so a device is its identifier.
\<close>

record PropsType =
  availableCameras :: "string list"
  conversation :: string
  hasLocalAudio :: bool
  hasLocalVideo :: bool
  i18n :: LocalizerType
  isGroupCall :: "bool option"
  isCallFull :: "bool option"
  me :: MeType
  onCallCanceled :: fn_id
  onJoinCall :: fn_id
  peekedParticipants :: "ConversationType list"
  setLocalAudio :: fn_id
  setLocalVideo :: fn_id
  setLocalPreview :: fn_id
  showParticipantsList :: bool
  toggleParticipants :: fn_id
  toggleSettings :: fn_id

definition default_false :: "bool option \<Rightarrow> bool" where
  "default_false v = (case v of None \<Rightarrow> False | Some b \<Rightarrow> b)"

subsection \<open>Effects, closures and handlers\<close>

text \<open>The object returned by \<open>React.useRef(null)\<close>; there is one per instance.\<close>

datatype ref = LocalVideoRef

text \<open>
  \<open>toggleAudio\<close> and \<open>toggleVideo\<close> are made by \<open>useCallback\<close>: such a closure is the
  same function exactly when its dependencies are the same, so it is embedded as
  the pair of values it captured.
\<close>

record toggle =
  captured_enabled :: bool
  captured_setter :: fn_id

text \<open>
  \<open>handleKeyDown\<close> closes over \<open>toggleVideo\<close> and \<open>toggleAudio\<close> of the render whose
  effect created it.
\<close>

record listener =
  listener_toggleVideo :: toggle
  listener_toggleAudio :: toggle

text \<open>
  What the component does to the outside: a call of a callback prop (with the
  identity of the function called and its argument), a call on \<open>document\<close>, or a
  call on the keyboard event being handled.
\<close>

datatype effect =
  OnCallCanceled fn_id
| OnJoinCall fn_id
| SetLocalAudio fn_id bool
| SetLocalVideo fn_id bool
| SetLocalPreview fn_id "ref option"
| AddEventListener string listener
| RemoveEventListener string listener
| PreventDefault
| StopPropagation

text \<open>
  A statement of a click handler: a call of the state setter of \<open>useState\<close>, or a
  call to the outside.
\<close>

datatype action =
  SetIsCallConnecting bool
| Emit effect

type_synonym handler = "action list"

record KeyboardEvent =
  shiftKey :: bool
  key :: string

subsection \<open>The rendered tree\<close>

datatype CallingButtonType =
  AUDIO_OFF | AUDIO_ON | VIDEO_DISABLED | VIDEO_OFF | VIDEO_ON

text \<open>
  A child expression of an element: \<open>false\<close> (what \<open>a && b\<close> leaves when \<open>a\<close> is
  false), a string, or the spinner element with its \<open>svgSize\<close>.
\<close>

datatype ReactNode =
  RFalse
| RText string
| Spinner string

record CallingHeaderProps =
  header_title :: string
  header_isGroupCall :: bool
  header_participantCount :: nat
  header_showParticipantsList :: bool
  header_toggleParticipants :: fn_id
  header_toggleSettings :: fn_id

text \<open>
  The two alternatives of the video area: the \<open>video\<close> element bound to the ref,
  or the blurred avatar with its caption.
\<close>

datatype video_area =
  VideoElement ref
| CallBackgroundBlur "string option" "string option" string

record CallingButtonProps =
  buttonType :: CallingButtonType
  button_onClick :: toggle

record ButtonProps =
  disabled :: bool
  onClick :: "handler option"
  children :: ReactNode

record lobby =
  header :: CallingHeaderProps
  video :: video_area
  videoButton :: CallingButtonProps
  audioButton :: CallingButtonProps
  info :: "ReactNode list option"
  cancelButton :: ButtonProps
  joinButton :: ButtonProps

subsection \<open>The render function\<close>

definition toggleAudio :: "PropsType \<Rightarrow> toggle" where
  "toggleAudio p =
     \<lparr>captured_enabled = hasLocalAudio p, captured_setter = setLocalAudio p\<rparr>"

definition toggleVideo :: "PropsType \<Rightarrow> toggle" where
  "toggleVideo p =
     \<lparr>captured_enabled = hasLocalVideo p, captured_setter = setLocalVideo p\<rparr>"

definition videoButtonType :: "PropsType \<Rightarrow> CallingButtonType" where
  "videoButtonType p =
     (if hasLocalVideo p then VIDEO_ON
      else if length (availableCameras p) = 0 then VIDEO_DISABLED
      else VIDEO_OFF)"

definition audioButtonType :: "PropsType \<Rightarrow> CallingButtonType" where
  "audioButtonType p = (if hasLocalAudio p then AUDIO_ON else AUDIO_OFF)"

text \<open>
  \<open>a || b\<close> on an optional string and a string: \<open>a\<close> when it is truthy, that is
  present and not empty, else \<open>b\<close>.
\<close>

definition or_else :: "string option \<Rightarrow> string \<Rightarrow> string" where
  "or_else a b = (case a of None \<Rightarrow> b | Some s \<Rightarrow> if s = [] then b else s)"

text \<open>The function mapped over \<open>peekedParticipants\<close>.\<close>

definition participantName :: "PropsType \<Rightarrow> ConversationType \<Rightarrow> string" where
  "participantName p participant =
     (if uuid participant = Some (me_uuid (me p)) then i18n p ''you'' NoValues
      else or_else (firstName participant) (title participant))"

definition participantNames :: "PropsType \<Rightarrow> string list" where
  "participantNames p = map (participantName p) (peekedParticipants p)"

definition hasYou :: "PropsType \<Rightarrow> bool" where
  "hasYou p =
     list_ex (\<lambda>participant. uuid participant = Some (me_uuid (me p)))
       (peekedParticipants p)"

definition canJoin :: "PropsType \<Rightarrow> bool \<Rightarrow> bool" where
  "canJoin p isCallConnecting =
     (\<not> default_false (isCallFull p) \<and> \<not> isCallConnecting)"

definition joinButtonChildren :: "PropsType \<Rightarrow> bool \<Rightarrow> ReactNode" where
  "joinButtonChildren p isCallConnecting =
     (if default_false (isCallFull p) then RText (i18n p ''calling__call-is-full'' NoValues)
      else if isCallConnecting then Spinner ''small''
      else if length (peekedParticipants p) \<noteq> 0 then RText (i18n p ''calling__join'' NoValues)
      else RText (i18n p ''calling__start'' NoValues))"

text \<open>\<open>String(n)\<close> on a natural number: its decimal digits.\<close>

definition digit :: "nat \<Rightarrow> char" where
  "digit d = ''0123456789'' ! d"

fun String_of :: "nat \<Rightarrow> string" where
  "String_of n = (if n < 10 then [digit n] else String_of (n div 10) @ [digit (n mod 10)])"

declare String_of.simps [simp del]

text \<open>
  What \<open>String(n)\<close> is for a natural number, said without the function above: the
  string is not empty, all its characters are decimal digits, it has no leading zero
  unless it is the one digit of zero, and read in base ten it is \<open>n\<close>.
\<close>

definition decimal_value :: "string \<Rightarrow> nat" where
  "decimal_value s = foldl (\<lambda>v c. 10 * v + (of_char c - 48)) 0 s"

definition is_decimal_of :: "string \<Rightarrow> nat \<Rightarrow> bool" where
  "is_decimal_of s n =
     (s \<noteq> [] \<and>
      list_all (\<lambda>c. 48 \<le> (of_char c :: nat) \<and> (of_char c :: nat) \<le> 57) s \<and>
      (if n = 0 then s = ''0'' else hd s \<noteq> CHR ''0'') \<and>
      decimal_value s = n)"

text \<open>
  The six child expressions of the summary element, in order. \<open>c && node\<close> in a
  child position is \<open>node\<close> when \<open>c\<close> holds and \<open>false\<close> otherwise, and evaluates
  \<open>node\<close> only when \<open>c\<close> holds: each index is read under a guard on the length that
  keeps it in range.
\<close>

definition summary :: "PropsType \<Rightarrow> ReactNode list" where
  "summary p =
     (let names = participantNames p in
      [ if length names = 0
        then RText (i18n p ''calling__lobby-summary--zero'' NoValues) else RFalse,
        if length names = 1 \<and> hasYou p
        then RText (i18n p ''calling__lobby-summary--self'' NoValues) else RFalse,
        if length names = 1 \<and> \<not> hasYou p
        then RText (i18n p ''calling__lobby-summary--single'' (ArrayValues names))
        else RFalse,
        if length names = 2
        then RText (i18n p ''calling__lobby-summary--double''
               (NamedValues [(''first'', names ! 0), (''second'', names ! 1)]))
        else RFalse,
        if length names = 3
        then RText (i18n p ''calling__lobby-summary--triple''
               (NamedValues [(''first'', names ! 0), (''second'', names ! 1),
                             (''third'', names ! 2)]))
        else RFalse,
        if length names > 3
        then RText (i18n p ''calling__lobby-summary--many''
               (NamedValues [(''first'', names ! 0), (''second'', names ! 1),
                             (''others'', String_of (length names - 2))]))
        else RFalse ])"

definition joinHandler :: "PropsType \<Rightarrow> handler" where
  "joinHandler p = [SetIsCallConnecting True, Emit (OnJoinCall (onJoinCall p))]"

definition CallingLobby :: "PropsType \<Rightarrow> bool \<Rightarrow> lobby" where
  "CallingLobby p isCallConnecting =
     \<lparr> header =
         \<lparr> header_title = conversation p,
           header_isGroupCall = default_false (isGroupCall p),
           header_participantCount = length (peekedParticipants p),
           header_showParticipantsList = showParticipantsList p,
           header_toggleParticipants = toggleParticipants p,
           header_toggleSettings = toggleSettings p \<rparr>,
       video =
         (if hasLocalVideo p \<and> length (availableCameras p) > 0
          then VideoElement LocalVideoRef
          else CallBackgroundBlur (me_avatarPath (me p)) (me_color (me p))
                 (i18n p ''calling__your-video-is-off'' NoValues)),
       videoButton =
         \<lparr> buttonType = videoButtonType p, button_onClick = toggleVideo p \<rparr>,
       audioButton =
         \<lparr> buttonType = audioButtonType p, button_onClick = toggleAudio p \<rparr>,
       info = (if default_false (isGroupCall p) then Some (summary p) else None),
       cancelButton =
         \<lparr> disabled = False,
           onClick = Some [Emit (OnCallCanceled (onCallCanceled p))],
           children = RText (i18n p ''cancel'' NoValues) \<rparr>,
       joinButton =
         \<lparr> disabled = (\<not> canJoin p isCallConnecting),
           onClick = (if canJoin p isCallConnecting then Some (joinHandler p) else None),
           children = joinButtonChildren p isCallConnecting \<rparr> \<rparr>"

text \<open>
  What the rendering substrate shows of a list of children: \<open>false\<close> shows nothing,
  so the shown children are the others, in order.
\<close>

definition shown :: "ReactNode list \<Rightarrow> ReactNode list" where
  "shown nodes = filter (\<lambda>n. n \<noteq> RFalse) nodes"

subsection \<open>Hooks and handlers\<close>

definition run_toggleAudio :: "toggle \<Rightarrow> effect" where
  "run_toggleAudio t = SetLocalAudio (captured_setter t) (\<not> captured_enabled t)"

definition run_toggleVideo :: "toggle \<Rightarrow> effect" where
  "run_toggleVideo t = SetLocalVideo (captured_setter t) (\<not> captured_enabled t)"

text \<open>
  \<open>handleKeyDown\<close>: the two branches set \<open>eventHandled\<close>, and the event is touched
  afterwards exactly when it is set.
\<close>

definition handleKeyDown :: "listener \<Rightarrow> KeyboardEvent \<Rightarrow> effect list" where
  "handleKeyDown l event =
     (let (calls, eventHandled) =
        (if shiftKey event \<and> (key event = ''V'' \<or> key event = ''v'')
         then ([run_toggleVideo (listener_toggleVideo l)], True)
         else if shiftKey event \<and> (key event = ''M'' \<or> key event = ''m'')
         then ([run_toggleAudio (listener_toggleAudio l)], True)
         else ([], False))
      in calls @ (if eventHandled then [PreventDefault, StopPropagation] else []))"

text \<open>The listener that the second effect of a render creates.\<close>

definition keydownListener :: "PropsType \<Rightarrow> listener" where
  "keydownListener p =
     \<lparr>listener_toggleVideo = toggleVideo p, listener_toggleAudio = toggleAudio p\<rparr>"

subsection \<open>A mounted instance\<close>

text \<open>
  The props and the state of the last committed render, the state updates queued
  by a running handler, the committed tree, and the two effects. Both are passive
  effects (\<open>useEffect\<close>): a commit only leaves them pending, and they run later, at
  the latest before the next render and before the unmount. The record keeps what
  they last acquired, if they ran at all: the function the preview was registered
  with (the dependency of the first effect) and the listener on \<open>document\<close> (whose
  two captured callbacks are the dependencies of the second).
\<close>

record mounted =
  props :: PropsType
  isCallConnecting :: bool
  queued :: "bool list"
  rendered :: lobby
  registeredWith :: "fn_id option"
  attached :: "listener option"
  effectsPending :: bool

text \<open>
  Mounting renders with the initial state \<open>useState(false)\<close> and commits; nothing
  is acquired yet, and nothing is called.
\<close>

definition mount :: "PropsType \<Rightarrow> mounted \<times> effect list" where
  "mount p =
     (\<lparr> props = p, isCallConnecting = False, queued = [],
        rendered = CallingLobby p False,
        registeredWith = None, attached = None, effectsPending = True \<rparr>,
      [])"

text \<open>
  The pending effects of the last commit run: an effect runs when it never ran or
  its dependencies differ from those of its last run, after the cleanup of that
  run; all cleanups come before all effects, each group in declaration order. The
  cleanup of the first effect calls the function its own run captured.
\<close>

definition runEffects :: "mounted \<Rightarrow> mounted \<times> effect list" where
  "runEffects s =
     (if \<not> effectsPending s then (s, [])
      else
        let p = props s;
            previewChanged = (registeredWith s \<noteq> Some (setLocalPreview p));
            listenerChanged =
              (case attached s of
                 None \<Rightarrow> True
               | Some l \<Rightarrow> toggleVideo p \<noteq> listener_toggleVideo l \<or>
                           toggleAudio p \<noteq> listener_toggleAudio l)
        in (s\<lparr> registeredWith := Some (setLocalPreview p),
               attached := (if listenerChanged then Some (keydownListener p) else attached s),
               effectsPending := False \<rparr>,
            (if previewChanged
             then (case registeredWith s of None \<Rightarrow> []
                   | Some f \<Rightarrow> [SetLocalPreview f None])
             else []) @
            (if listenerChanged
             then (case attached s of None \<Rightarrow> []
                   | Some l \<Rightarrow> [RemoveEventListener ''keydown'' l])
             else []) @
            (if previewChanged
             then [SetLocalPreview (setLocalPreview p) (Some LocalVideoRef)] else []) @
            (if listenerChanged
             then [AddEventListener ''keydown'' (keydownListener p)] else [])))"

text \<open>
  A re-render with props \<open>p\<close>: effects still pending run first, the queued state
  updates are applied in order (each replaces the value), the component function
  runs and its tree is committed, which leaves the effects of this render pending.
\<close>

definition rerender :: "mounted \<Rightarrow> PropsType \<Rightarrow> mounted \<times> effect list" where
  "rerender s p =
     (let (s0, out) = runEffects s;
          connecting = last (isCallConnecting s0 # queued s0)
      in (s0\<lparr> props := p, isCallConnecting := connecting, queued := [],
              rendered := CallingLobby p connecting, effectsPending := True \<rparr>,
          out))"

text \<open>
  Unmounting: effects still pending run first, then the cleanup of both effects.
\<close>

definition unmount :: "mounted \<Rightarrow> effect list" where
  "unmount s =
     (let (s0, out) = runEffects s
      in out @
         (case registeredWith s0 of None \<Rightarrow> [] | Some f \<Rightarrow> [SetLocalPreview f None]) @
         (case attached s0 of None \<Rightarrow> []
          | Some l \<Rightarrow> [RemoveEventListener ''keydown'' l]))"

text \<open>
  Running a click handler: the state setter only queues its value (the closure
  keeps the state of its own render), a call to the outside happens at once.
\<close>

fun exec :: "handler \<Rightarrow> mounted \<Rightarrow> mounted \<times> effect list" where
  "exec [] s = (s, [])"
| "exec (SetIsCallConnecting b # rest) s = exec rest (s\<lparr>queued := queued s @ [b]\<rparr>)"
| "exec (Emit e # rest) s = (let (s', out) = exec rest s in (s', e # out))"

text \<open>
  A click dispatched to a \<open>button\<close> element: a disabled button receives no click,
  and a button without \<open>onClick\<close> has nothing to run. The state updates that the
  handler queued are applied before the dispatch returns, by a re-render with the
  same props.
\<close>

definition click :: "ButtonProps \<Rightarrow> mounted \<Rightarrow> mounted \<times> effect list" where
  "click b s =
     (let (s1, out1) =
            (if disabled b then (s, [])
             else case onClick b of None \<Rightarrow> (s, []) | Some h \<Rightarrow> exec h s);
          (s2, out2) = (if queued s1 = [] then (s1, []) else rerender s1 (props s1))
      in (s2, out1 @ out2))"

text \<open>
  What can happen to a mounted instance: a re-render with the props the parent
  passes, the scheduler running the pending effects, a click on one of the four
  buttons, a keydown event on \<open>document\<close>, which reaches the listener attached at
  that moment, if there is one.
\<close>

datatype event =
  Render PropsType
| RunEffects
| ClickJoin
| ClickCancel
| ClickVideo
| ClickAudio
| KeyDown KeyboardEvent

fun step :: "mounted \<Rightarrow> event \<Rightarrow> mounted \<times> effect list" where
  "step s (Render p) = rerender s p"
| "step s RunEffects = runEffects s"
| "step s ClickJoin = click (joinButton (rendered s)) s"
| "step s ClickCancel = click (cancelButton (rendered s)) s"
| "step s ClickVideo = (s, [run_toggleVideo (button_onClick (videoButton (rendered s)))])"
| "step s ClickAudio = (s, [run_toggleAudio (button_onClick (audioButton (rendered s)))])"
| "step s (KeyDown event) =
     (s, case attached s of None \<Rightarrow> [] | Some l \<Rightarrow> handleKeyDown l event)"

fun run :: "mounted \<Rightarrow> event list \<Rightarrow> mounted \<times> effect list" where
  "run s [] = (s, [])"
| "run s (e # es) =
     (let (s1, out1) = step s e; (s2, out2) = run s1 es in (s2, out1 @ out2))"

text \<open>The life of an instance: mounted with \<open>p\<close>, the events, unmounted.\<close>

definition lifetime :: "PropsType \<Rightarrow> event list \<Rightarrow> effect list" where
  "lifetime p es =
     (let (s0, out0) = mount p; (s1, out1) = run s0 es in out0 @ out1 @ unmount s1)"

text \<open>The instance reached from mounting with \<open>p\<close> by the events.\<close>

definition reached :: "PropsType \<Rightarrow> event list \<Rightarrow> mounted" where
  "reached p es = fst (run (fst (mount p)) es)"

fun isJoin :: "effect \<Rightarrow> bool" where
  "isJoin (OnJoinCall f) = True"
| "isJoin _ = False"

fun isPreview :: "effect \<Rightarrow> bool" where
  "isPreview (SetLocalPreview f r) = True"
| "isPreview _ = False"

fun isListener :: "effect \<Rightarrow> bool" where
  "isListener (AddEventListener n l) = True"
| "isListener (RemoveEventListener n l) = True"
| "isListener _ = False"

text \<open>
  An instance is consistent when its tree is the render of its props and state, no
  state update is left queued, and its effects, unless pending, hold what the
  render of its props acquires.
\<close>

definition consistent :: "mounted \<Rightarrow> bool" where
  "consistent s =
     (rendered s = CallingLobby (props s) (isCallConnecting s) \<and>
      queued s = [] \<and>
      (\<not> effectsPending s \<longrightarrow>
         registeredWith s = Some (setLocalPreview (props s)) \<and>
         attached s = Some (keydownListener (props s))))"

text \<open>
  An event that leaves the dependencies of both effects as the props \<open>p\<close> set them:
  any event but a re-render whose props bring another \<open>setLocalPreview\<close>, or another
  \<open>toggleVideo\<close> or \<open>toggleAudio\<close> callback.
\<close>

fun keeps_dependencies :: "PropsType \<Rightarrow> event \<Rightarrow> bool" where
  "keeps_dependencies p (Render q) =
     (setLocalPreview q = setLocalPreview p \<and> toggleVideo q = toggleVideo p \<and>
      toggleAudio q = toggleAudio p)"
| "keeps_dependencies p e = True"


text \<open>The event with \<open>isCallFull\<close> of its props, if it has any, replaced.\<close>

fun withCallFull :: "bool option \<Rightarrow> event \<Rightarrow> event" where
  "withCallFull v (Render q) = Render (q\<lparr>isCallFull := v\<rparr>)"
| "withCallFull v e = e"

subsection \<open>A concrete localizer and props\<close>

text \<open>
  A localizer for the concrete instances below: the key, then each replacement
  value after a space.
\<close>

definition echo_i18n :: LocalizerType where
  "echo_i18n k values =
     k @ concat (map (\<lambda>v. CHR '' '' # v)
       (case values of NoValues \<Rightarrow> [] | ArrayValues vs \<Rightarrow> vs
        | NamedValues kvs \<Rightarrow> map snd kvs))"

definition person :: "string \<Rightarrow> string \<Rightarrow> ConversationType" where
  "person u n = \<lparr>uuid = Some u, firstName = Some n, title = n @ '' Smith''\<rparr>"

definition lobby_props :: "ConversationType list \<Rightarrow> PropsType" where
  "lobby_props ps =
     \<lparr> availableCameras = [''camera-1''], conversation = ''Friends'',
       hasLocalAudio = True, hasLocalVideo = False, i18n = echo_i18n,
       isGroupCall = Some True, isCallFull = Some False,
       me = \<lparr>me_avatarPath = None, me_color = None, me_uuid = ''me''\<rparr>,
       onCallCanceled = 1, onJoinCall = 2, peekedParticipants = ps,
       setLocalAudio = 3, setLocalVideo = 4, setLocalPreview = 5,
       showParticipantsList = False, toggleParticipants = 6, toggleSettings = 7 \<rparr>"

section \<open>The participant summary\<close>

text \<open>What is shown of the summary, by the shape of the peeked list.\<close>

lemma shown_summary_nil:
  "peekedParticipants p = [] \<Longrightarrow>
   shown (summary p) = [RText (i18n p ''calling__lobby-summary--zero'' NoValues)]"
  by (simp add: summary_def shown_def participantNames_def)

lemma shown_summary_self:
  "peekedParticipants p = [a] \<Longrightarrow> uuid a = Some (me_uuid (me p)) \<Longrightarrow>
   shown (summary p) = [RText (i18n p ''calling__lobby-summary--self'' NoValues)]"
  by (simp add: summary_def shown_def participantNames_def hasYou_def)

lemma shown_summary_single:
  "peekedParticipants p = [a] \<Longrightarrow> uuid a \<noteq> Some (me_uuid (me p)) \<Longrightarrow>
   shown (summary p) =
     [RText (i18n p ''calling__lobby-summary--single''
        (ArrayValues [or_else (firstName a) (title a)]))]"
  by (simp add: summary_def shown_def participantNames_def hasYou_def participantName_def)

lemma shown_summary_double:
  "peekedParticipants p = [a, b] \<Longrightarrow>
   shown (summary p) =
     [RText (i18n p ''calling__lobby-summary--double''
        (NamedValues [(''first'', participantName p a), (''second'', participantName p b)]))]"
  by (simp add: summary_def shown_def participantNames_def)

lemma shown_summary_triple:
  "peekedParticipants p = [a, b, c] \<Longrightarrow>
   shown (summary p) =
     [RText (i18n p ''calling__lobby-summary--triple''
        (NamedValues [(''first'', participantName p a), (''second'', participantName p b),
                      (''third'', participantName p c)]))]"
  by (simp add: summary_def shown_def participantNames_def)

lemma shown_summary_many:
  "peekedParticipants p = a # b # c # d # rest \<Longrightarrow>
   shown (summary p) =
     [RText (i18n p ''calling__lobby-summary--many''
        (NamedValues [(''first'', participantName p a), (''second'', participantName p b),
                      (''others'', String_of (length (peekedParticipants p) - 2))]))]"
  by (simp add: summary_def shown_def participantNames_def)

text \<open>
  \<open>String_of\<close> gives the decimal numeral of its argument, and nothing else is one.
\<close>

lemma of_char_digit: "d < 10 \<Longrightarrow> (of_char (digit d) :: nat) = 48 + d"
proof -
  assume "d < 10"
  then have "d = 0 \<or> d = 1 \<or> d = 2 \<or> d = 3 \<or> d = 4 \<or> d = 5 \<or> d = 6 \<or> d = 7 \<or>
      d = 8 \<or> d = 9"
    by arith
  then show ?thesis
    by (elim disjE) (simp_all add: digit_def)
qed

lemma decimal_value_snoc:
  "decimal_value (s @ [c]) = 10 * decimal_value s + (of_char c - 48)"
  by (simp add: decimal_value_def)

lemma String_of_not_empty: "String_of n \<noteq> []"
  by (subst String_of.simps) simp

lemma String_of_digits:
  "list_all (\<lambda>c. 48 \<le> (of_char c :: nat) \<and> (of_char c :: nat) \<le> 57) (String_of n)"
proof (induction n rule: String_of.induct)
  case (1 n)
  show ?case
  proof (cases "n < 10")
    case True
    then show ?thesis
      by (subst String_of.simps) (simp add: of_char_digit)
  next
    case False
    with 1 show ?thesis
      by (subst String_of.simps) (simp add: of_char_digit)
  qed
qed

lemma String_of_value: "decimal_value (String_of n) = n"
proof (induction n rule: String_of.induct)
  case (1 n)
  show ?case
  proof (cases "n < 10")
    case True
    then show ?thesis
      by (subst String_of.simps) (simp add: decimal_value_def of_char_digit)
  next
    case False
    with 1 have "decimal_value (String_of (n div 10)) = n div 10" by simp
    with False show ?thesis
      by (subst String_of.simps) (simp add: decimal_value_snoc of_char_digit)
  qed
qed

lemma String_of_leading: "0 < n \<Longrightarrow> hd (String_of n) \<noteq> CHR ''0''"
proof (induction n rule: String_of.induct)
  case (1 n)
  show ?case
  proof (cases "n < 10")
    case True
    have "(of_char (digit n) :: nat) \<noteq> of_char (CHR ''0'')"
      using True "1.prems" by (simp add: of_char_digit)
    then have "digit n \<noteq> CHR ''0''" by auto
    with True show ?thesis
      by (subst String_of.simps) simp
  next
    case False
    then have "0 < n div 10" by simp
    with 1 False have "hd (String_of (n div 10)) \<noteq> CHR ''0''" by simp
    with False show ?thesis
      by (subst String_of.simps) (simp add: String_of_not_empty)
  qed
qed

lemma String_of_zero: "String_of 0 = ''0''"
  by (subst String_of.simps) (simp add: digit_def)

lemma String_of_is_decimal: "is_decimal_of (String_of n) n"
  by (simp add: is_decimal_of_def String_of_not_empty String_of_digits String_of_value
        String_of_leading String_of_zero)

lemma foldl_decimal_ge: "(a::nat) \<le> foldl (\<lambda>v c. 10 * v + (of_char c - 48)) a s"
proof (induction s arbitrary: a)
  case Nil
  show ?case by simp
next
  case (Cons c s)
  have "a \<le> 10 * a + (of_char c - 48)" by simp
  also have "\<dots> \<le> foldl (\<lambda>v c. 10 * v + (of_char c - 48)) (10 * a + (of_char c - 48)) s"
    by (rule Cons.IH)
  finally show ?case by simp
qed

lemma decimal_value_pos:
  assumes "s \<noteq> []" and "48 \<le> (of_char (hd s) :: nat)" and "hd s \<noteq> CHR ''0''"
  shows "0 < decimal_value s"
proof -
  from assms(1) obtain c r where s: "s = c # r" by (cases s) auto
  have "(of_char c :: nat) \<noteq> of_char (CHR ''0'')"
    using assms(3) s by (simp only: of_char_eq_iff list.sel not_False_eq_True)
  with assms(2) s have "0 < (of_char c :: nat) - 48" by simp
  also have "\<dots> \<le> decimal_value s"
    using foldl_decimal_ge [of "of_char c - 48" r] by (simp add: s decimal_value_def)
  finally show ?thesis .
qed

lemma is_decimal_of_String_of: "is_decimal_of s n \<Longrightarrow> s = String_of n"
proof (induction n arbitrary: s rule: String_of.induct)
  case (1 n)
  from "1.prems" have ne: "s \<noteq> []"
    and dg: "list_all (\<lambda>c. 48 \<le> (of_char c :: nat) \<and> (of_char c :: nat) \<le> 57) s"
    and lead: "if n = 0 then s = ''0'' else hd s \<noteq> CHR ''0''"
    and val: "decimal_value s = n"
    by (simp_all add: is_decimal_of_def)
  from ne obtain r c where s: "s = r @ [c]" by (cases s rule: rev_cases) auto
  from dg s have dc: "48 \<le> (of_char c :: nat)" "(of_char c :: nat) \<le> 57"
    and dr: "list_all (\<lambda>c. 48 \<le> (of_char c :: nat) \<and> (of_char c :: nat) \<le> 57) r"
    by simp_all
  from val s have v: "10 * decimal_value r + (of_char c - 48) = n"
    by (simp add: decimal_value_snoc)
  from dc have lt: "(of_char c :: nat) - 48 < 10" by simp
  define a d where "a = decimal_value r" and "d = (of_char c :: nat) - 48"
  from lt have "(10 * a + d) mod 10 = d" "(10 * a + d) div 10 = a"
    by (simp_all add: d_def)
  with v have md: "of_char c - 48 = n mod 10" and dv: "decimal_value r = n div 10"
    by (simp_all add: a_def d_def)
  have "(of_char c :: nat) = of_char (digit (n mod 10))"
    using md dc by (simp add: of_char_digit)
  then have c: "c = digit (n mod 10)" by simp
  show ?case
  proof (cases "n < 10")
    case True
    have "r = []"
    proof (rule ccontr)
      assume r: "r \<noteq> []"
      show False
      proof (cases "n = 0")
        case True
        with lead s r show False by (cases r) simp_all
      next
        case False
        with lead s r have "hd r \<noteq> CHR ''0''" by simp
        moreover from dr r have "48 \<le> (of_char (hd r) :: nat)" by (cases r) simp_all
        ultimately have "0 < decimal_value r" using r by (intro decimal_value_pos)
        with dv True show False by simp
      qed
    qed
    with s c True show ?thesis
      by (subst String_of.simps) simp
  next
    case False
    then have pos: "0 < n div 10" by simp
    with dv have r: "r \<noteq> []" by (auto simp: decimal_value_def)
    from False lead s r have "hd r \<noteq> CHR ''0''" by simp
    with r dr dv pos have "is_decimal_of r (n div 10)"
      by (simp add: is_decimal_of_def)
    with False "1.IH" have "r = String_of (n div 10)" by simp
    with s c False show ?thesis
      by (subst String_of.simps) simp
  qed
qed

text \<open>
  C1. In a group call the summary element is rendered, and what it shows is one
  string chosen by the length of the peeked list and by whether its only entry is
  the local user: the \<open>zero\<close> string for no entry; the \<open>self\<close> string for one
  entry with the uuid of \<open>me\<close>; the \<open>single\<close> string with that entry's name for one
  other entry; the \<open>double\<close> string with both names for two; the \<open>triple\<close> string
  with the three names for three; the \<open>many\<close> string with the first two names and
  \<open>String\<close> of the length minus two for more than three, which is the decimal
  numeral of that number.
\<close>

theorem participant_summary_by_cardinality:
  assumes "isGroupCall p = Some True"
  shows "\<exists>nodes. info (CallingLobby p connecting) = Some nodes \<and>
     (peekedParticipants p = [] \<longrightarrow>
        shown nodes = [RText (i18n p ''calling__lobby-summary--zero'' NoValues)]) \<and>
     (\<forall>a. peekedParticipants p = [a] \<and> uuid a = Some (me_uuid (me p)) \<longrightarrow>
        shown nodes = [RText (i18n p ''calling__lobby-summary--self'' NoValues)]) \<and>
     (\<forall>a. peekedParticipants p = [a] \<and> uuid a \<noteq> Some (me_uuid (me p)) \<longrightarrow>
        shown nodes = [RText (i18n p ''calling__lobby-summary--single''
          (ArrayValues [or_else (firstName a) (title a)]))]) \<and>
     (\<forall>a b. peekedParticipants p = [a, b] \<longrightarrow>
        shown nodes = [RText (i18n p ''calling__lobby-summary--double''
          (NamedValues [(''first'', participantName p a),
                        (''second'', participantName p b)]))]) \<and>
     (\<forall>a b c. peekedParticipants p = [a, b, c] \<longrightarrow>
        shown nodes = [RText (i18n p ''calling__lobby-summary--triple''
          (NamedValues [(''first'', participantName p a),
                        (''second'', participantName p b),
                        (''third'', participantName p c)]))]) \<and>
     (\<forall>a b rest. peekedParticipants p = a # b # rest \<and> length rest \<ge> 2 \<longrightarrow>
        shown nodes = [RText (i18n p ''calling__lobby-summary--many''
          (NamedValues [(''first'', participantName p a),
                        (''second'', participantName p b),
                        (''others'', String_of (length (peekedParticipants p) - 2))]))] \<and>
        is_decimal_of (String_of (length (peekedParticipants p) - 2))
          (length (peekedParticipants p) - 2))"
proof -
  have i: "info (CallingLobby p connecting) = Some (summary p)"
    using assms by (simp add: CallingLobby_def default_false_def)
  have many: "shown (summary p) = [RText (i18n p ''calling__lobby-summary--many''
          (NamedValues [(''first'', participantName p a),
                        (''second'', participantName p b),
                        (''others'', String_of (length (peekedParticipants p) - 2))]))]"
    if "peekedParticipants p = a # b # rest" "length rest \<ge> 2" for a b rest
  proof -
    from that(2) obtain c d rest' where "rest = c # d # rest'"
      by (cases rest; cases "tl rest") auto
    with that(1) show ?thesis by (simp only: shown_summary_many)
  qed
  show ?thesis
  proof (intro exI[of _ "summary p"] conjI allI impI)
    show "info (CallingLobby p connecting) = Some (summary p)" by (rule i)
  next
    assume "peekedParticipants p = []"
    then show "shown (summary p) = [RText (i18n p ''calling__lobby-summary--zero'' NoValues)]"
      by (rule shown_summary_nil)
  next
    fix a assume "peekedParticipants p = [a] \<and> uuid a = Some (me_uuid (me p))"
    then show "shown (summary p) = [RText (i18n p ''calling__lobby-summary--self'' NoValues)]"
      using shown_summary_self by blast
  next
    fix a assume "peekedParticipants p = [a] \<and> uuid a \<noteq> Some (me_uuid (me p))"
    then show "shown (summary p) = [RText (i18n p ''calling__lobby-summary--single''
          (ArrayValues [or_else (firstName a) (title a)]))]"
      using shown_summary_single by blast
  next
    fix a b assume "peekedParticipants p = [a, b]"
    then show "shown (summary p) = [RText (i18n p ''calling__lobby-summary--double''
          (NamedValues [(''first'', participantName p a),
                        (''second'', participantName p b)]))]"
      by (rule shown_summary_double)
  next
    fix a b c assume "peekedParticipants p = [a, b, c]"
    then show "shown (summary p) = [RText (i18n p ''calling__lobby-summary--triple''
          (NamedValues [(''first'', participantName p a),
                        (''second'', participantName p b),
                        (''third'', participantName p c)]))]"
      by (rule shown_summary_triple)
  next
    fix a b rest assume "peekedParticipants p = a # b # rest \<and> length rest \<ge> 2"
    then show "shown (summary p) = [RText (i18n p ''calling__lobby-summary--many''
          (NamedValues [(''first'', participantName p a),
                        (''second'', participantName p b),
                        (''others'', String_of (length (peekedParticipants p) - 2))]))]"
      using many by blast
  next
    fix a b rest
    show "is_decimal_of (String_of (length (peekedParticipants p) - 2))
        (length (peekedParticipants p) - 2)"
      by (rule String_of_is_decimal)
  qed
qed

text \<open>
  The six cases at lists of 0, 1 (the local user), 1 (Bob), 2, 3, 5 and 12 entries;
  with five entries the count is 3, with twelve it is 10.
\<close>

theorem participant_summary_by_cardinality_witness:
  "map (\<lambda>ps. map_option shown (info (CallingLobby (lobby_props ps) False)))
     [ [],
       [person ''me'' ''Ann''],
       [person ''b'' ''Bob''],
       [person ''b'' ''Bob'', person ''c'' ''Carol''],
       [person ''b'' ''Bob'', person ''c'' ''Carol'', person ''d'' ''Dan''],
       [person ''b'' ''Bob'', person ''c'' ''Carol'', person ''d'' ''Dan'',
        person ''e'' ''Eve'', person ''f'' ''Fay''],
       [person ''b'' ''Bob'', person ''c'' ''Carol'', person ''d'' ''Dan'',
        person ''e'' ''Eve'', person ''f'' ''Fay'', person ''g'' ''Gus'',
        person ''h'' ''Hal'', person ''i'' ''Ida'', person ''j'' ''Jo'',
        person ''k'' ''Kim'', person ''l'' ''Lea'', person ''m'' ''Max''] ] =
     [ Some [RText ''calling__lobby-summary--zero''],
       Some [RText ''calling__lobby-summary--self''],
       Some [RText ''calling__lobby-summary--single Bob''],
       Some [RText ''calling__lobby-summary--double Bob Carol''],
       Some [RText ''calling__lobby-summary--triple Bob Carol Dan''],
       Some [RText ''calling__lobby-summary--many Bob Carol 3''],
       Some [RText ''calling__lobby-summary--many Bob Carol 10''] ]"
proof -
  have g: "isGroupCall (lobby_props ps) = Some True" for ps
    by (simp add: lobby_props_def)
  note t = participant_summary_by_cardinality [OF g, of _ False]
  have pp: "peekedParticipants (lobby_props ps) = ps" for ps
    by (simp add: lobby_props_def)
  have ev: "i18n (lobby_props ps) = echo_i18n" "me_uuid (me (lobby_props ps)) = ''me''" for ps
    by (simp_all add: lobby_props_def)
  have three: "String_of (Suc (Suc (Suc 0))) = ''3''"
    by (simp add: String_of.simps digit_def)
  have c0: "map_option shown (info (CallingLobby (lobby_props []) False)) =
      Some [RText ''calling__lobby-summary--zero'']"
    using t [of "[]"] by (auto simp: pp ev echo_i18n_def)
  have c1: "map_option shown (info (CallingLobby (lobby_props [person ''me'' ''Ann'']) False)) =
      Some [RText ''calling__lobby-summary--self'']"
    using t [of "[person ''me'' ''Ann'']"] by (auto simp: pp ev echo_i18n_def person_def)
  have c1': "map_option shown (info (CallingLobby (lobby_props [person ''b'' ''Bob'']) False)) =
      Some [RText ''calling__lobby-summary--single Bob'']"
    using t [of "[person ''b'' ''Bob'']"]
    by (auto simp: pp ev echo_i18n_def person_def or_else_def)
  have c2: "map_option shown (info (CallingLobby
        (lobby_props [person ''b'' ''Bob'', person ''c'' ''Carol'']) False)) =
      Some [RText ''calling__lobby-summary--double Bob Carol'']"
    using t [of "[person ''b'' ''Bob'', person ''c'' ''Carol'']"]
    by (auto simp: pp ev echo_i18n_def person_def or_else_def participantName_def)
  have c3: "map_option shown (info (CallingLobby
        (lobby_props [person ''b'' ''Bob'', person ''c'' ''Carol'', person ''d'' ''Dan'']) False)) =
      Some [RText ''calling__lobby-summary--triple Bob Carol Dan'']"
    using t [of "[person ''b'' ''Bob'', person ''c'' ''Carol'', person ''d'' ''Dan'']"]
    by (auto simp: pp ev echo_i18n_def person_def or_else_def participantName_def)
  have c5: "map_option shown (info (CallingLobby
        (lobby_props [person ''b'' ''Bob'', person ''c'' ''Carol'', person ''d'' ''Dan'',
           person ''e'' ''Eve'', person ''f'' ''Fay'']) False)) =
      Some [RText ''calling__lobby-summary--many Bob Carol 3'']"
    using t [of "[person ''b'' ''Bob'', person ''c'' ''Carol'', person ''d'' ''Dan'',
           person ''e'' ''Eve'', person ''f'' ''Fay'']"]
    by (auto simp: pp ev echo_i18n_def person_def or_else_def participantName_def three)
  have ten: "String_of (Suc (Suc (Suc (Suc (Suc (Suc (Suc (Suc (Suc (Suc 0)))))))))) = ''10''"
    by (simp add: String_of.simps digit_def)
  have c12: "map_option shown (info (CallingLobby
        (lobby_props [person ''b'' ''Bob'', person ''c'' ''Carol'', person ''d'' ''Dan'',
           person ''e'' ''Eve'', person ''f'' ''Fay'', person ''g'' ''Gus'',
           person ''h'' ''Hal'', person ''i'' ''Ida'', person ''j'' ''Jo'',
           person ''k'' ''Kim'', person ''l'' ''Lea'', person ''m'' ''Max'']) False)) =
      Some [RText ''calling__lobby-summary--many Bob Carol 10'']"
    using t [of "[person ''b'' ''Bob'', person ''c'' ''Carol'', person ''d'' ''Dan'',
           person ''e'' ''Eve'', person ''f'' ''Fay'', person ''g'' ''Gus'',
           person ''h'' ''Hal'', person ''i'' ''Ida'', person ''j'' ''Jo'',
           person ''k'' ''Kim'', person ''l'' ''Lea'', person ''m'' ''Max'']"]
    by (auto simp: pp ev echo_i18n_def person_def or_else_def participantName_def ten)
  show ?thesis
    by (simp only: list.map c0 c1 c1' c2 c3 c5 c12)
qed

section \<open>The join button's content and the toggle buttons\<close>

text \<open>
  C5. The content of the join button, for every props and state: the
  \<open>calling__call-is-full\<close> string when the call is full; otherwise the small spinner
  when a join attempt is in flight; otherwise the \<open>calling__join\<close> string when the
  peeked list is not empty; otherwise the \<open>calling__start\<close> string.
\<close>

theorem join_button_content_priority:
  "children (joinButton (CallingLobby p connecting)) =
     (if isCallFull p = Some True then RText (i18n p ''calling__call-is-full'' NoValues)
      else if connecting then Spinner ''small''
      else if peekedParticipants p \<noteq> [] then RText (i18n p ''calling__join'' NoValues)
      else RText (i18n p ''calling__start'' NoValues))"
  by (cases "isCallFull p")
     (simp_all add: CallingLobby_def joinButtonChildren_def default_false_def)

text \<open>The priority at six combinations, two for each overriding case.\<close>

theorem join_button_content_priority_witness:
  "map (\<lambda>(full, connecting, ps).
       children (joinButton (CallingLobby (lobby_props ps\<lparr>isCallFull := full\<rparr>) connecting)))
     [ (Some True, True, [person ''b'' ''Bob'']),
       (Some True, False, []),
       (Some False, True, [person ''b'' ''Bob'']),
       (None, True, []),
       (Some False, False, [person ''b'' ''Bob'']),
       (None, False, []) ] =
     [ RText ''calling__call-is-full'', RText ''calling__call-is-full'',
       Spinner ''small'', Spinner ''small'',
       RText ''calling__join'', RText ''calling__start'' ]"
  by (simp add: join_button_content_priority lobby_props_def echo_i18n_def)

text \<open>
  C6. The video button is \<open>VIDEO_ON\<close> exactly when \<open>hasLocalVideo\<close> holds,
  \<open>VIDEO_DISABLED\<close> exactly when it does not and there is no camera, \<open>VIDEO_OFF\<close>
  exactly when it does not and there is a camera; the audio button is \<open>AUDIO_ON\<close>
  or \<open>AUDIO_OFF\<close> as \<open>hasLocalAudio\<close> says.
\<close>

theorem toggle_button_types:
  "(buttonType (videoButton (CallingLobby p connecting)) = VIDEO_ON \<longleftrightarrow> hasLocalVideo p) \<and>
   (buttonType (videoButton (CallingLobby p connecting)) = VIDEO_DISABLED \<longleftrightarrow>
      \<not> hasLocalVideo p \<and> length (availableCameras p) = 0) \<and>
   (buttonType (videoButton (CallingLobby p connecting)) = VIDEO_OFF \<longleftrightarrow>
      \<not> hasLocalVideo p \<and> length (availableCameras p) \<noteq> 0) \<and>
   buttonType (audioButton (CallingLobby p connecting)) =
      (if hasLocalAudio p then AUDIO_ON else AUDIO_OFF)"
  by (simp add: CallingLobby_def videoButtonType_def audioButtonType_def)

text \<open>The four combinations of local video and camera presence.\<close>

theorem toggle_button_types_witness:
  "map (\<lambda>(v, cams, a).
       let l = CallingLobby (lobby_props []
                 \<lparr>hasLocalVideo := v, availableCameras := cams, hasLocalAudio := a\<rparr>) False
       in (buttonType (videoButton l), buttonType (audioButton l)))
     [ (True, [], True), (True, [''camera-1''], False),
       (False, [], True), (False, [''camera-1''], False) ] =
     [ (VIDEO_ON, AUDIO_ON), (VIDEO_ON, AUDIO_OFF),
       (VIDEO_DISABLED, AUDIO_ON), (VIDEO_OFF, AUDIO_OFF) ]"
proof -
  have "buttonType (videoButton (CallingLobby q False)) =
      (if hasLocalVideo q then VIDEO_ON
       else if length (availableCameras q) = 0 then VIDEO_DISABLED else VIDEO_OFF)" for q
    using toggle_button_types [of q False] by (simp split: if_splits)
  moreover have "buttonType (audioButton (CallingLobby q False)) =
      (if hasLocalAudio q then AUDIO_ON else AUDIO_OFF)" for q
    using toggle_button_types [of q False] by simp
  ultimately show ?thesis
    by (simp add: lobby_props_def)
qed

section \<open>The names of the participants\<close>

text \<open>
  C10. There is one name for each entry of the peeked list, in order: the \<open>you\<close>
  string of the localizer when the entry's uuid is the uuid of \<open>me\<close>; otherwise the
  entry's \<open>firstName\<close> when it is present and not empty; otherwise its \<open>title\<close>.
\<close>

theorem participant_name_rule:
  "length (participantNames p) = length (peekedParticipants p) \<and>
   (\<forall>k < length (peekedParticipants p).
      participantNames p ! k =
        (let entry = peekedParticipants p ! k in
         if uuid entry = Some (me_uuid (me p)) then i18n p ''you'' NoValues
         else case firstName entry of
                Some name \<Rightarrow> if name \<noteq> [] then name else title entry
              | None \<Rightarrow> title entry))"
  by (auto simp: participantNames_def participantName_def or_else_def Let_def
           split: option.splits)

text \<open>The local user, a first name, an empty first name, no first name.\<close>

theorem participant_name_rule_witness:
  "participantNames (lobby_props
     [ person ''me'' ''Ann'', person ''b'' ''Bob'',
       \<lparr>uuid = Some ''c'', firstName = Some [], title = ''Carol C.''\<rparr>,
       \<lparr>uuid = None, firstName = None, title = ''Dan D.''\<rparr> ]) =
   [''you'', ''Bob'', ''Carol C.'', ''Dan D.'']"
proof -
  let ?p = "lobby_props
     [ person ''me'' ''Ann'', person ''b'' ''Bob'',
       \<lparr>uuid = Some ''c'', firstName = Some [], title = ''Carol C.''\<rparr>,
       \<lparr>uuid = None, firstName = None, title = ''Dan D.''\<rparr> ]"
  have len: "length (participantNames ?p) = 4"
    using participant_name_rule [of ?p] by (simp add: lobby_props_def)
  have nth: "participantNames ?p ! 0 = ''you''" "participantNames ?p ! 1 = ''Bob''"
    "participantNames ?p ! 2 = ''Carol C.''" "participantNames ?p ! 3 = ''Dan D.''"
    using participant_name_rule [of ?p]
    by (simp_all add: lobby_props_def person_def echo_i18n_def)
  show ?thesis
    using len nth by (auto simp: list_eq_iff_nth_eq less_Suc_eq numeral_eq_Suc)
qed

section \<open>Instances reached from a mount\<close>

text \<open>
  Running the pending effects and re-rendering, field by field.
\<close>

lemma runEffects_keeps [simp]:
  "props (fst (runEffects s)) = props s"
  "isCallConnecting (fst (runEffects s)) = isCallConnecting s"
  "queued (fst (runEffects s)) = queued s"
  "rendered (fst (runEffects s)) = rendered s"
  "\<not> effectsPending (fst (runEffects s))"
  by (simp_all add: runEffects_def Let_def)

lemma listener_eq:
  "toggleVideo p = listener_toggleVideo l \<Longrightarrow> toggleAudio p = listener_toggleAudio l \<Longrightarrow>
   l = keydownListener p"
  by (cases l) (simp add: keydownListener_def)

lemma runEffects_acquires [simp]:
  "registeredWith (fst (runEffects s)) =
     (if effectsPending s then Some (setLocalPreview (props s)) else registeredWith s)"
  "attached (fst (runEffects s)) =
     (if effectsPending s then Some (keydownListener (props s)) else attached s)"
  by (auto simp: runEffects_def Let_def dest: listener_eq split: option.splits)

lemma rerender_fields [simp]:
  "props (fst (rerender s p)) = p"
  "isCallConnecting (fst (rerender s p)) = last (isCallConnecting s # queued s)"
  "queued (fst (rerender s p)) = []"
  "rendered (fst (rerender s p)) = CallingLobby p (last (isCallConnecting s # queued s))"
  "effectsPending (fst (rerender s p))"
  "registeredWith (fst (rerender s p)) = registeredWith (fst (runEffects s))"
  "attached (fst (rerender s p)) = attached (fst (runEffects s))"
  "snd (rerender s p) = snd (runEffects s)"
  by (simp_all add: rerender_def split_beta Let_def del: last.simps)

text \<open>
  The handlers of the two buttons, dispatched on an instance with nothing queued:
  the join handler, when the render attached it, calls \<open>onJoinCall\<close> and the
  instance re-renders with \<open>true\<close> applied; the cancel handler calls
  \<open>onCallCanceled\<close> and queues nothing.
\<close>

lemma exec_joinHandler:
  "exec (joinHandler q) s = (s\<lparr>queued := queued s @ [True]\<rparr>, [OnJoinCall (onJoinCall q)])"
  by (simp add: joinHandler_def)

lemma click_joinButton:
  "queued s = [] \<Longrightarrow>
   click (joinButton (CallingLobby q c)) s =
     (if canJoin q c
      then (fst (rerender (s\<lparr>queued := [True]\<rparr>) (props s)),
            OnJoinCall (onJoinCall q) # snd (rerender (s\<lparr>queued := [True]\<rparr>) (props s)))
      else (s, []))"
  by (simp add: click_def CallingLobby_def exec_joinHandler split_beta)

lemma click_cancelButton:
  "queued s = [] \<Longrightarrow>
   click (cancelButton (CallingLobby q c)) s = (s, [OnCallCanceled (onCallCanceled q)])"
  by (simp add: click_def CallingLobby_def)

text \<open>
  Every instance reached from a mount is consistent.
\<close>

lemma consistent_mount: "consistent (fst (mount p))"
  by (simp add: consistent_def mount_def)

lemma consistent_runEffects: "consistent s \<Longrightarrow> consistent (fst (runEffects s))"
  by (simp add: consistent_def)

lemma consistent_rerender: "consistent (fst (rerender s p))"
  by (simp add: consistent_def del: last.simps)

lemma consistent_step: "consistent s \<Longrightarrow> consistent (fst (step s e))"
proof (cases e)
  case (Render p)
  then show ?thesis by (simp add: consistent_rerender)
next
  case RunEffects
  then show "consistent s \<Longrightarrow> ?thesis" by (simp add: consistent_runEffects)
next
  case ClickJoin
  assume c: "consistent s"
  then have r: "rendered s = CallingLobby (props s) (isCallConnecting s)" and q: "queued s = []"
    by (simp_all add: consistent_def)
  show ?thesis
    using c by (simp add: ClickJoin r click_joinButton [OF q] consistent_rerender)
next
  case ClickCancel
  assume c: "consistent s"
  then have r: "rendered s = CallingLobby (props s) (isCallConnecting s)" and q: "queued s = []"
    by (simp_all add: consistent_def)
  show ?thesis
    using c by (simp add: ClickCancel r click_cancelButton [OF q])
qed simp_all

lemma consistent_run: "consistent s \<Longrightarrow> consistent (fst (run s es))"
  by (induction es arbitrary: s) (auto simp: split_beta Let_def consistent_step)

lemma run_append:
  "run s (es @ es') =
     (let (s1, out1) = run s es; (s2, out2) = run s1 es' in (s2, out1 @ out2))"
  by (induction es arbitrary: s) (simp_all add: split_beta Let_def)

lemma consistent_reached: "consistent (reached p es)"
  by (simp add: reached_def consistent_run consistent_mount)

lemma reached_append: "reached p (es @ es') = fst (run (reached p es) es')"
  by (simp add: reached_def run_append split_beta Let_def)

lemma reached_rendered:
  "rendered (reached p es) = CallingLobby (props (reached p es)) (isCallConnecting (reached p es))"
  "queued (reached p es) = []"
  using consistent_reached [of p es] by (simp_all add: consistent_def)

section \<open>The join attempt\<close>

lemma step_keeps_connecting:
  "consistent s \<Longrightarrow> isCallConnecting s \<Longrightarrow> isCallConnecting (fst (step s e))"
proof (cases e)
  case (Render p)
  assume "consistent s" "isCallConnecting s"
  then show ?thesis by (simp add: Render consistent_def)
next
  case ClickJoin
  assume "consistent s" "isCallConnecting s"
  then show ?thesis
    by (simp add: ClickJoin click_joinButton consistent_def canJoin_def)
next
  case ClickCancel
  assume "consistent s" "isCallConnecting s"
  then show ?thesis
    by (simp add: ClickCancel click_cancelButton consistent_def)
qed simp_all

lemma run_keeps_connecting:
  "consistent s \<Longrightarrow> isCallConnecting s \<Longrightarrow> isCallConnecting (fst (run s es))"
  by (induction es arbitrary: s)
     (simp_all add: split_beta Let_def consistent_step step_keeps_connecting)

lemma step_sets_connecting:
  assumes "consistent s" and "isCallConnecting (fst (step s e))"
  shows "isCallConnecting s \<or>
         (e = ClickJoin \<and> (\<exists>f. OnJoinCall f \<in> set (snd (step s e))))"
proof (cases e)
  case (Render p)
  with assms show ?thesis by (simp add: consistent_def)
next
  case ClickJoin
  with assms show ?thesis
    by (auto simp: click_joinButton consistent_def split: if_splits)
next
  case ClickCancel
  with assms show ?thesis
    by (auto simp: click_cancelButton consistent_def)
qed (use assms in simp_all)

lemma run_sets_connecting:
  "consistent s \<Longrightarrow> isCallConnecting (fst (run s es)) \<Longrightarrow>
   isCallConnecting s \<or>
     (ClickJoin \<in> set es \<and> (\<exists>f. OnJoinCall f \<in> set (snd (run s es))))"
proof (induction es arbitrary: s)
  case Nil
  then show ?case by simp
next
  case (Cons e es)
  let ?s1 = "fst (step s e)"
  have c1: "consistent ?s1" using Cons.prems(1) by (rule consistent_step)
  have "isCallConnecting (fst (run ?s1 es))"
    using Cons.prems(2) by (simp add: split_beta Let_def)
  from Cons.IH [OF c1 this]
  consider "isCallConnecting ?s1"
    | "ClickJoin \<in> set es \<and> (\<exists>f. OnJoinCall f \<in> set (snd (run ?s1 es)))"
    by blast
  then show ?case
  proof cases
    case 1
    from step_sets_connecting [OF Cons.prems(1) 1] show ?thesis
      by (auto simp: split_beta Let_def)
  next
    case 2
    then show ?thesis by (auto simp: split_beta Let_def)
  qed
qed

lemma connecting_join_disabled:
  "consistent s \<Longrightarrow> isCallConnecting s \<Longrightarrow>
   disabled (joinButton (rendered s)) \<and> onClick (joinButton (rendered s)) = None"
  by (simp add: consistent_def CallingLobby_def canJoin_def)

text \<open>
  C3. The state \<open>isCallConnecting\<close> is false at the mount. In an instance reached
  from a mount where it is true, a click on the join button was among the events and
  the join handler ran (\<open>onJoinCall\<close> was called); it stays true under all later
  events; and the join button of the committed tree is disabled and carries no
  \<open>onClick\<close>.
\<close>

theorem connecting_flag_lifecycle:
  "\<not> isCallConnecting (fst (mount p)) \<and>
   (isCallConnecting (reached p es) \<longrightarrow>
      ClickJoin \<in> set es \<and> (\<exists>f. OnJoinCall f \<in> set (snd (run (fst (mount p)) es)))) \<and>
   (isCallConnecting (reached p es) \<longrightarrow> isCallConnecting (reached p (es @ later))) \<and>
   (isCallConnecting (reached p es) \<longrightarrow>
      disabled (joinButton (rendered (reached p es))) \<and>
      onClick (joinButton (rendered (reached p es))) = None)"
proof (intro conjI impI)
  show "\<not> isCallConnecting (fst (mount p))"
    by (simp add: mount_def)
next
  assume a: "isCallConnecting (reached p es)"
  have m: "\<not> isCallConnecting (fst (mount p))"
    by (simp add: mount_def)
  from a have "isCallConnecting (fst (run (fst (mount p)) es))"
    by (simp add: reached_def)
  from run_sets_connecting [OF consistent_mount this] m
  have both: "ClickJoin \<in> set es \<and> (\<exists>f. OnJoinCall f \<in> set (snd (run (fst (mount p)) es)))"
    by simp
  from both show "ClickJoin \<in> set es" ..
  from both show "\<exists>f. OnJoinCall f \<in> set (snd (run (fst (mount p)) es))" ..
next
  assume "isCallConnecting (reached p es)"
  then show "isCallConnecting (reached p (es @ later))"
    by (simp add: reached_append run_keeps_connecting consistent_reached)
next
  assume a: "isCallConnecting (reached p es)"
  from connecting_join_disabled [OF consistent_reached a]
  show "disabled (joinButton (rendered (reached p es)))"
    and "onClick (joinButton (rendered (reached p es))) = None"
    by simp_all
qed

text \<open>
  A click on the join button and a re-render; then further events.
\<close>

theorem connecting_flag_lifecycle_witness:
  "isCallConnecting (reached (lobby_props []) [ClickJoin, Render (lobby_props [])]) \<and>
   \<not> isCallConnecting (fst (mount (lobby_props []))) \<and>
   ClickJoin \<in> set [ClickJoin, Render (lobby_props [])] \<and>
   (\<exists>f. OnJoinCall f \<in>
      set (snd (run (fst (mount (lobby_props []))) [ClickJoin, Render (lobby_props [])]))) \<and>
   isCallConnecting (reached (lobby_props [])
     ([ClickJoin, Render (lobby_props [])] @
      [ClickJoin, ClickCancel, Render (lobby_props [person ''b'' ''Bob''])])) \<and>
   disabled (joinButton (rendered
     (reached (lobby_props []) [ClickJoin, Render (lobby_props [])]))) \<and>
   onClick (joinButton (rendered
     (reached (lobby_props []) [ClickJoin, Render (lobby_props [])]))) = None"
proof -
  have c: "canJoin (lobby_props []) False"
    by (simp add: canJoin_def default_false_def lobby_props_def)
  have a: "isCallConnecting (reached (lobby_props []) [ClickJoin, Render (lobby_props [])])"
    by (simp add: reached_def mount_def click_joinButton c split_beta Let_def)
  from a connecting_flag_lifecycle [of "lobby_props []" "[ClickJoin, Render (lobby_props [])]"
      "[ClickJoin, ClickCancel, Render (lobby_props [person ''b'' ''Bob''])]"]
  show ?thesis by blast
qed

text \<open>
  C4. The join button is enabled, and carries its handler, exactly when the call is
  not full and no join attempt is in flight. In an instance reached from a mount
  whose props say that the call is full, a click on the join button leaves the
  instance as it is and calls nothing.
\<close>

theorem join_enabled_iff_eligible:
  "(\<not> disabled (joinButton (CallingLobby p connecting)) \<longleftrightarrow>
      isCallFull p \<noteq> Some True \<and> \<not> connecting) \<and>
   (onClick (joinButton (CallingLobby p connecting)) \<noteq> None \<longleftrightarrow>
      isCallFull p \<noteq> Some True \<and> \<not> connecting) \<and>
   (isCallFull (props (reached q es)) = Some True \<longrightarrow>
      step (reached q es) ClickJoin = (reached q es, []))"
proof (intro conjI impI)
  show "(\<not> disabled (joinButton (CallingLobby p connecting))) =
      (isCallFull p \<noteq> Some True \<and> \<not> connecting)"
    by (cases "isCallFull p") (auto simp: CallingLobby_def canJoin_def default_false_def)
  show "(onClick (joinButton (CallingLobby p connecting)) \<noteq> None) =
      (isCallFull p \<noteq> Some True \<and> \<not> connecting)"
    by (cases "isCallFull p") (auto simp: CallingLobby_def canJoin_def default_false_def)
next
  assume full: "isCallFull (props (reached q es)) = Some True"
  then show "step (reached q es) ClickJoin = (reached q es, [])"
    by (simp add: reached_rendered click_joinButton canJoin_def default_false_def)
qed

text \<open>
  Enabled at the mount, disabled when connecting and when full; a click when full.
\<close>

theorem join_enabled_iff_eligible_witness:
  "\<not> disabled (joinButton (CallingLobby (lobby_props []) False)) \<and>
   onClick (joinButton (CallingLobby (lobby_props []) False)) \<noteq> None \<and>
   disabled (joinButton (CallingLobby (lobby_props []) True)) \<and>
   disabled (joinButton (CallingLobby (lobby_props [] \<lparr>isCallFull := Some True\<rparr>) False)) \<and>
   isCallFull (props (reached (lobby_props []) [Render (lobby_props [] \<lparr>isCallFull := Some True\<rparr>)]))
     = Some True \<and>
   step (reached (lobby_props []) [Render (lobby_props [] \<lparr>isCallFull := Some True\<rparr>)]) ClickJoin =
     (reached (lobby_props []) [Render (lobby_props [] \<lparr>isCallFull := Some True\<rparr>)], [])"
proof -
  let ?full = "lobby_props [] \<lparr>isCallFull := Some True\<rparr>"
  have f: "isCallFull (props (reached (lobby_props []) [Render ?full])) = Some True"
    by (simp add: reached_def)
  have e: "isCallFull (lobby_props []) \<noteq> Some True" "isCallFull ?full = Some True"
    by (simp_all add: lobby_props_def)
  from f e join_enabled_iff_eligible [of "lobby_props []" False "lobby_props []" "[Render ?full]"]
    join_enabled_iff_eligible [of "lobby_props []" True "lobby_props []" "[Render ?full]"]
    join_enabled_iff_eligible [of ?full False "lobby_props []" "[Render ?full]"]
  show ?thesis by blast
qed

text \<open>
  Calls of \<open>onJoinCall\<close> come from clicks on the join button only; a click that
  calls it leaves the state true, and there is no call once the state is true.
\<close>

lemma runEffects_no_join: "filter isJoin (snd (runEffects s)) = []"
  unfolding runEffects_def Let_def option.case_eq_if by simp

lemma handleKeyDown_no_join: "filter isJoin (handleKeyDown l event) = []"
  by (simp add: handleKeyDown_def run_toggleVideo_def run_toggleAudio_def)

lemma step_no_join:
  "consistent s \<Longrightarrow> e \<noteq> ClickJoin \<Longrightarrow> filter isJoin (snd (step s e)) = []"
  by (cases e)
     (simp_all add: runEffects_no_join handleKeyDown_no_join consistent_def click_cancelButton
        run_toggleVideo_def run_toggleAudio_def option.case_eq_if)

lemma click_join_eligible:
  assumes "consistent s" and "canJoin (props s) (isCallConnecting s)"
  shows "filter isJoin (snd (step s ClickJoin)) = [OnJoinCall (onJoinCall (props s))]"
    and "isCallConnecting (fst (step s ClickJoin))"
  using assms by (simp_all add: consistent_def click_joinButton runEffects_no_join)

lemma click_join_ineligible:
  "consistent s \<Longrightarrow> \<not> canJoin (props s) (isCallConnecting s) \<Longrightarrow>
   step s ClickJoin = (s, [])"
  by (simp add: consistent_def click_joinButton)

lemma step_connecting_no_join:
  "consistent s \<Longrightarrow> isCallConnecting s \<Longrightarrow> filter isJoin (snd (step s e)) = []"
  by (cases "e = ClickJoin")
     (simp_all add: step_no_join click_join_ineligible canJoin_def del: step.simps)

lemma run_connecting_no_join:
  "consistent s \<Longrightarrow> isCallConnecting s \<Longrightarrow> filter isJoin (snd (run s es)) = []"
  by (induction es arbitrary: s)
     (simp_all add: split_beta Let_def consistent_step step_keeps_connecting
        step_connecting_no_join)

lemma step_join_connecting:
  assumes "consistent s" and "filter isJoin (snd (step s e)) \<noteq> []"
  shows "isCallConnecting (fst (step s e))"
proof -
  from assms have e: "e = ClickJoin" using step_no_join by blast
  with assms have "canJoin (props s) (isCallConnecting s)"
    using click_join_ineligible by fastforce
  with assms(1) show ?thesis unfolding e by (rule click_join_eligible(2))
qed

lemma run_join_connecting:
  "consistent s \<Longrightarrow> filter isJoin (snd (run s es)) \<noteq> [] \<Longrightarrow>
   isCallConnecting (fst (run s es))"
proof (induction es arbitrary: s)
  case Nil
  then show ?case by simp
next
  case (Cons e es)
  let ?s1 = "fst (step s e)"
  have c1: "consistent ?s1" using Cons.prems(1) by (rule consistent_step)
  show ?case
  proof (cases "filter isJoin (snd (step s e)) = []")
    case True
    with Cons.prems(2) have "filter isJoin (snd (run ?s1 es)) \<noteq> []"
      by (simp add: split_beta Let_def)
    with c1 have "isCallConnecting (fst (run ?s1 es))" by (rule Cons.IH)
    then show ?thesis by (simp add: split_beta Let_def)
  next
    case False
    with Cons.prems(1) have "isCallConnecting ?s1" by (rule step_join_connecting)
    with c1 have "isCallConnecting (fst (run ?s1 es))" by (rule run_keeps_connecting)
    then show ?thesis by (simp add: split_beta Let_def)
  qed
qed

lemma run_join_at_most_once:
  "consistent s \<Longrightarrow> length (filter isJoin (snd (run s es))) \<le> 1"
proof (induction es arbitrary: s)
  case Nil
  then show ?case by simp
next
  case (Cons e es)
  let ?s1 = "fst (step s e)"
  have c1: "consistent ?s1" using Cons.prems by (rule consistent_step)
  show ?case
  proof (cases "filter isJoin (snd (step s e)) = []")
    case True
    with Cons.IH [OF c1] show ?thesis by (simp add: split_beta Let_def)
  next
    case False
    with Cons.prems have e: "e = ClickJoin" using step_no_join by blast
    from False Cons.prems have el: "canJoin (props s) (isCallConnecting s)"
      unfolding e using click_join_ineligible by fastforce
    have "isCallConnecting ?s1"
      using Cons.prems False by (rule step_join_connecting)
    with c1 have "filter isJoin (snd (run ?s1 es)) = []" by (rule run_connecting_no_join)
    with click_join_eligible(1) [OF Cons.prems el] show ?thesis
      by (simp add: e split_beta Let_def del: step.simps)
  qed
qed

lemma unmount_no_join: "filter isJoin (unmount s) = []"
  by (simp add: unmount_def split_beta runEffects_no_join option.case_eq_if)

lemma filter_isJoin_lifetime:
  "filter isJoin (lifetime p es) = filter isJoin (snd (run (fst (mount p)) es))"
  by (simp add: lifetime_def mount_def unmount_no_join split_beta Let_def)

text \<open>
  C2. In an instance reached from a mount where joining is permitted (the call is
  not full and no join attempt is in flight), a click on the join button calls
  \<open>onJoinCall\<close> once and leaves \<open>isCallConnecting\<close> true when its dispatch returns;
  and whatever events follow, further clicks on the join button among them,
  \<open>onJoinCall\<close> is called exactly once in the whole life of the instance. No life
  calls it more than once.
\<close>

theorem join_exactly_once:
  "(canJoin (props (reached p es)) (isCallConnecting (reached p es)) \<longrightarrow>
      filter isJoin (snd (step (reached p es) ClickJoin)) =
        [OnJoinCall (onJoinCall (props (reached p es)))] \<and>
      isCallConnecting (fst (step (reached p es) ClickJoin)) \<and>
      filter isJoin (lifetime p (es @ ClickJoin # later)) =
        [OnJoinCall (onJoinCall (props (reached p es)))]) \<and>
   length (filter isJoin (lifetime p es)) \<le> 1"
proof (intro conjI impI)
  assume el: "canJoin (props (reached p es)) (isCallConnecting (reached p es))"
  let ?s = "reached p es" and ?s1 = "fst (step (reached p es) ClickJoin)"
  note c = consistent_reached [of p es]
  show one: "filter isJoin (snd (step ?s ClickJoin)) = [OnJoinCall (onJoinCall (props ?s))]"
    using c el by (rule click_join_eligible(1))
  show conn: "isCallConnecting ?s1"
    using c el by (rule click_join_eligible(2))
  have before: "filter isJoin (snd (run (fst (mount p)) es)) = []"
  proof (rule ccontr)
    assume "filter isJoin (snd (run (fst (mount p)) es)) \<noteq> []"
    with consistent_mount have "isCallConnecting (fst (run (fst (mount p)) es))"
      by (rule run_join_connecting)
    with el show False by (simp add: reached_def canJoin_def)
  qed
  have after: "filter isJoin (snd (run ?s1 later)) = []"
    using consistent_step [OF c] conn by (rule run_connecting_no_join)
  have "filter isJoin (snd (run (fst (mount p)) (es @ ClickJoin # later))) =
      filter isJoin (snd (run (fst (mount p)) es)) @
      filter isJoin (snd (step ?s ClickJoin)) @ filter isJoin (snd (run ?s1 later))"
    by (simp add: run_append split_beta Let_def reached_def del: step.simps)
  with before one after
  show "filter isJoin (lifetime p (es @ ClickJoin # later)) =
      [OnJoinCall (onJoinCall (props ?s))]"
    by (simp add: filter_isJoin_lifetime del: step.simps)
next
  show "length (filter isJoin (lifetime p es)) \<le> 1"
    unfolding filter_isJoin_lifetime using consistent_mount by (rule run_join_at_most_once)
qed

text \<open>
  A first click on the join button followed by three more, two of them at once.
\<close>

theorem join_exactly_once_witness:
  "canJoin (props (reached (lobby_props []) [KeyDown \<lparr>shiftKey = True, key = ''M''\<rparr>]))
     (isCallConnecting (reached (lobby_props []) [KeyDown \<lparr>shiftKey = True, key = ''M''\<rparr>])) \<and>
   filter isJoin (snd (step (reached (lobby_props []) [KeyDown \<lparr>shiftKey = True, key = ''M''\<rparr>])
     ClickJoin)) = [OnJoinCall 2] \<and>
   isCallConnecting (fst (step (reached (lobby_props []) [KeyDown \<lparr>shiftKey = True, key = ''M''\<rparr>])
     ClickJoin)) \<and>
   filter isJoin (lifetime (lobby_props [])
     ([KeyDown \<lparr>shiftKey = True, key = ''M''\<rparr>] @
      ClickJoin # [ClickJoin, ClickJoin, Render (lobby_props [person ''b'' ''Bob'']), ClickJoin])) =
     [OnJoinCall 2]"
proof -
  let ?es = "[KeyDown \<lparr>shiftKey = True, key = ''M''\<rparr>]"
  have pr: "props (reached (lobby_props []) ?es) = lobby_props []"
    "\<not> isCallConnecting (reached (lobby_props []) ?es)"
    by (simp_all add: reached_def mount_def)
  have el: "canJoin (props (reached (lobby_props []) ?es))
      (isCallConnecting (reached (lobby_props []) ?es))"
    unfolding pr(1) using pr(2) by (simp add: canJoin_def default_false_def lobby_props_def)
  have two: "onJoinCall (props (reached (lobby_props []) ?es)) = 2"
    unfolding pr(1) by (simp add: lobby_props_def)
  from el join_exactly_once [of "lobby_props []" ?es
      "[ClickJoin, ClickJoin, Render (lobby_props [person ''b'' ''Bob'']), ClickJoin]"]
  show ?thesis unfolding two by blast
qed

section \<open>Keyboard shortcuts\<close>








section \<open>The two effects\<close>

lemma runEffects_first:
  "effectsPending s \<Longrightarrow> registeredWith s = None \<Longrightarrow> attached s = None \<Longrightarrow>
   snd (runEffects s) =
     [SetLocalPreview (setLocalPreview (props s)) (Some LocalVideoRef),
      AddEventListener ''keydown'' (keydownListener (props s))]"
  unfolding runEffects_def Let_def by simp

lemma runEffects_unchanged:
  "registeredWith s = Some (setLocalPreview (props s)) \<Longrightarrow>
   attached s = Some (keydownListener (props s)) \<Longrightarrow>
   runEffects s = (s\<lparr>effectsPending := False\<rparr>, [])"
  unfolding runEffects_def Let_def by (cases s) (simp add: keydownListener_def)

lemma handleKeyDown_no_lifecycle:
  "filter (\<lambda>x. isPreview x \<or> isListener x) (handleKeyDown l event) = []"
  by (simp add: handleKeyDown_def run_toggleVideo_def run_toggleAudio_def)

lemma step_keeps_dependencies:
  assumes c: "consistent s"
    and d: "setLocalPreview (props s) = setLocalPreview p"
      "toggleVideo (props s) = toggleVideo p" "toggleAudio (props s) = toggleAudio p"
    and k: "keeps_dependencies p e"
    and a: "(registeredWith s = None \<and> attached s = None \<and> effectsPending s) \<or>
            (registeredWith s = Some (setLocalPreview p) \<and>
             attached s = Some (keydownListener p))"
  shows "setLocalPreview (props (fst (step s e))) = setLocalPreview p \<and>
         toggleVideo (props (fst (step s e))) = toggleVideo p \<and>
         toggleAudio (props (fst (step s e))) = toggleAudio p \<and>
         ((registeredWith s = None \<and>
           registeredWith (fst (step s e)) = None \<and> attached (fst (step s e)) = None \<and>
           effectsPending (fst (step s e)) \<and>
           filter (\<lambda>x. isPreview x \<or> isListener x) (snd (step s e)) = []) \<or>
          (registeredWith (fst (step s e)) = Some (setLocalPreview p) \<and>
           attached (fst (step s e)) = Some (keydownListener p) \<and>
           filter (\<lambda>x. isPreview x \<or> isListener x) (snd (step s e)) =
             (if registeredWith s = None
              then [SetLocalPreview (setLocalPreview p) (Some LocalVideoRef),
                    AddEventListener ''keydown'' (keydownListener p)]
              else [])))"
proof -
  have l: "keydownListener (props s) = keydownListener p"
    using d by (simp add: keydownListener_def)
  have r: "rendered s = CallingLobby (props s) (isCallConnecting s)" and q: "queued s = []"
    using c by (simp_all add: consistent_def)
  have fl: "registeredWith (fst (runEffects s)) = Some (setLocalPreview p) \<and>
      attached (fst (runEffects s)) = Some (keydownListener p) \<and>
      filter (\<lambda>x. isPreview x \<or> isListener x) (snd (runEffects s)) =
        (if registeredWith s = None
         then [SetLocalPreview (setLocalPreview p) (Some LocalVideoRef),
               AddEventListener ''keydown'' (keydownListener p)]
         else [])"
    using a
  proof
    assume "registeredWith s = None \<and> attached s = None \<and> effectsPending s"
    then show ?thesis by (simp add: runEffects_first d l)
  next
    assume b: "registeredWith s = Some (setLocalPreview p) \<and>
        attached s = Some (keydownListener p)"
    then have "runEffects s = (s\<lparr>effectsPending := False\<rparr>, [])"
      by (intro runEffects_unchanged) (simp_all add: d l)
    with b show ?thesis by simp
  qed
  have fl': "registeredWith (fst (runEffects (s\<lparr>queued := [True]\<rparr>))) = Some (setLocalPreview p) \<and>
      attached (fst (runEffects (s\<lparr>queued := [True]\<rparr>))) = Some (keydownListener p) \<and>
      filter (\<lambda>x. isPreview x \<or> isListener x) (snd (runEffects (s\<lparr>queued := [True]\<rparr>))) =
        (if registeredWith s = None
         then [SetLocalPreview (setLocalPreview p) (Some LocalVideoRef),
               AddEventListener ''keydown'' (keydownListener p)]
         else [])"
    using a
  proof
    assume "registeredWith s = None \<and> attached s = None \<and> effectsPending s"
    then show ?thesis by (simp add: runEffects_first d l)
  next
    assume b: "registeredWith s = Some (setLocalPreview p) \<and>
        attached s = Some (keydownListener p)"
    then have "runEffects (s\<lparr>queued := [True]\<rparr>) =
        (s\<lparr>queued := [True], effectsPending := False\<rparr>, [])"
      by (subst runEffects_unchanged) (simp_all add: d l)
    with b show ?thesis by simp
  qed
  show ?thesis
  proof (cases e)
    case (Render q')
    with k fl show ?thesis by simp
  next
    case RunEffects
    with fl d show ?thesis by simp
  next
    case ClickJoin
    show ?thesis
    proof (cases "canJoin (props s) (isCallConnecting s)")
      case True
      with fl' d show ?thesis by (simp add: ClickJoin r click_joinButton [OF q])
    next
      case False
      with a d show ?thesis by (auto simp: ClickJoin r click_joinButton [OF q])
    qed
  next
    case ClickCancel
    with a d show ?thesis by (auto simp: r click_cancelButton [OF q])
  next
    case ClickVideo
    with a d show ?thesis by (auto simp: run_toggleVideo_def)
  next
    case ClickAudio
    with a d show ?thesis by (auto simp: run_toggleAudio_def)
  next
    case (KeyDown event)
    with a d show ?thesis by (auto simp: handleKeyDown_no_lifecycle)
  qed
qed

lemma unmount_keeps_dependencies:
  assumes d: "setLocalPreview (props s) = setLocalPreview p"
      "toggleVideo (props s) = toggleVideo p" "toggleAudio (props s) = toggleAudio p"
    and a: "(registeredWith s = None \<and> attached s = None \<and> effectsPending s) \<or>
            (registeredWith s = Some (setLocalPreview p) \<and>
             attached s = Some (keydownListener p))"
  shows "unmount s =
     (if registeredWith s = None
      then [SetLocalPreview (setLocalPreview p) (Some LocalVideoRef),
            AddEventListener ''keydown'' (keydownListener p)]
      else []) @
     [SetLocalPreview (setLocalPreview p) None,
      RemoveEventListener ''keydown'' (keydownListener p)]"
proof -
  have l: "keydownListener (props s) = keydownListener p"
    using d by (simp add: keydownListener_def)
  from a show ?thesis
  proof
    assume "registeredWith s = None \<and> attached s = None \<and> effectsPending s"
    then show ?thesis
      by (simp add: unmount_def split_beta runEffects_first d l)
  next
    assume b: "registeredWith s = Some (setLocalPreview p) \<and>
        attached s = Some (keydownListener p)"
    then have "runEffects s = (s\<lparr>effectsPending := False\<rparr>, [])"
      by (intro runEffects_unchanged) (simp_all add: d l)
    with b show ?thesis by (simp add: unmount_def)
  qed
qed

lemma run_keeps_dependencies:
  "consistent s \<Longrightarrow>
   setLocalPreview (props s) = setLocalPreview p \<Longrightarrow>
   toggleVideo (props s) = toggleVideo p \<Longrightarrow> toggleAudio (props s) = toggleAudio p \<Longrightarrow>
   list_all (keeps_dependencies p) es \<Longrightarrow>
   (registeredWith s = None \<and> attached s = None \<and> effectsPending s) \<or>
     (registeredWith s = Some (setLocalPreview p) \<and> attached s = Some (keydownListener p)) \<Longrightarrow>
   filter (\<lambda>x. isPreview x \<or> isListener x) (snd (run s es) @ unmount (fst (run s es))) =
     (if registeredWith s = None
      then [SetLocalPreview (setLocalPreview p) (Some LocalVideoRef),
            AddEventListener ''keydown'' (keydownListener p)]
      else []) @
     [SetLocalPreview (setLocalPreview p) None,
      RemoveEventListener ''keydown'' (keydownListener p)]"
proof (induction es arbitrary: s)
  case Nil
  then show ?case
    by (simp add: unmount_keeps_dependencies [of s p])
next
  case (Cons e es)
  let ?s1 = "fst (step s e)"
  from Cons.prems(5) have k: "keeps_dependencies p e"
    and ks: "list_all (keeps_dependencies p) es"
    by simp_all
  note h = step_keeps_dependencies [OF Cons.prems(1-4) k Cons.prems(6)]
  have c1: "consistent ?s1" using Cons.prems(1) by (rule consistent_step)
  from h have d1: "setLocalPreview (props ?s1) = setLocalPreview p"
    "toggleVideo (props ?s1) = toggleVideo p" "toggleAudio (props ?s1) = toggleAudio p"
    by simp_all
  from h have a1: "(registeredWith ?s1 = None \<and> attached ?s1 = None \<and> effectsPending ?s1) \<or>
      (registeredWith ?s1 = Some (setLocalPreview p) \<and> attached ?s1 = Some (keydownListener p))"
    by blast
  note ih = Cons.IH [OF c1 d1 ks a1]
  have split: "filter (\<lambda>x. isPreview x \<or> isListener x)
        (snd (run s (e # es)) @ unmount (fst (run s (e # es)))) =
      filter (\<lambda>x. isPreview x \<or> isListener x) (snd (step s e)) @
      filter (\<lambda>x. isPreview x \<or> isListener x) (snd (run ?s1 es) @ unmount (fst (run ?s1 es)))"
    by (simp add: split_beta Let_def del: step.simps)
  from h consider
    (none) "registeredWith s = None" "registeredWith ?s1 = None"
      "filter (\<lambda>x. isPreview x \<or> isListener x) (snd (step s e)) = []"
    | (some) "registeredWith ?s1 = Some (setLocalPreview p)"
      "filter (\<lambda>x. isPreview x \<or> isListener x) (snd (step s e)) =
         (if registeredWith s = None
          then [SetLocalPreview (setLocalPreview p) (Some LocalVideoRef),
                AddEventListener ''keydown'' (keydownListener p)]
          else [])"
    by (elim conjE disjE) argo+
  then show ?case
  proof cases
    case none
    with ih show ?thesis unfolding split by simp
  next
    case some
    with ih show ?thesis unfolding split by simp
  qed
qed

lemma runEffects_preview_changed:
  "effectsPending s \<Longrightarrow> registeredWith s = Some f \<Longrightarrow> f \<noteq> setLocalPreview (props s) \<Longrightarrow>
   filter isPreview (snd (runEffects s)) =
     [SetLocalPreview f None, SetLocalPreview (setLocalPreview (props s)) (Some LocalVideoRef)]"
  unfolding runEffects_def Let_def option.case_eq_if by simp

lemma registered_after_effects:
  "consistent s \<Longrightarrow> registeredWith (fst (runEffects s)) = Some (setLocalPreview (props s))"
  by (simp add: consistent_def)

text \<open>
  C8. A mount followed by an unmount calls \<open>setLocalPreview\<close> with the ref, adds
  the keydown listener, calls \<open>setLocalPreview\<close> with no element and removes the same
  listener, and nothing else. The same four calls, once each and in this order, are
  all the preview and listener calls of a life whose events leave the dependencies
  of the effects unchanged. A re-render whose props bring another \<open>setLocalPreview\<close>
  has, when its effects run and after the calls that were still pending, the
  previous function called with no element and then the new one with the ref.
\<close>

theorem mount_unmount_effects:
  "lifetime p [] =
     [SetLocalPreview (setLocalPreview p) (Some LocalVideoRef),
      AddEventListener ''keydown'' (keydownListener p),
      SetLocalPreview (setLocalPreview p) None,
      RemoveEventListener ''keydown'' (keydownListener p)] \<and>
   (list_all (keeps_dependencies p) es \<longrightarrow>
      filter (\<lambda>x. isPreview x \<or> isListener x) (lifetime p es) =
        [SetLocalPreview (setLocalPreview p) (Some LocalVideoRef),
         AddEventListener ''keydown'' (keydownListener p),
         SetLocalPreview (setLocalPreview p) None,
         RemoveEventListener ''keydown'' (keydownListener p)]) \<and>
   (setLocalPreview q \<noteq> setLocalPreview (props (reached p es)) \<longrightarrow>
      filter isPreview (snd (run (reached p es) [Render q, RunEffects])) =
        filter isPreview (snd (step (reached p es) RunEffects)) @
        [SetLocalPreview (setLocalPreview (props (reached p es))) None,
         SetLocalPreview (setLocalPreview q) (Some LocalVideoRef)])"
proof (intro conjI impI)
  have m: "effectsPending (fst (mount p))" "registeredWith (fst (mount p)) = None"
    "attached (fst (mount p)) = None" "props (fst (mount p)) = p" "snd (mount p) = []"
    by (simp_all add: mount_def)
  show "lifetime p [] =
     [SetLocalPreview (setLocalPreview p) (Some LocalVideoRef),
      AddEventListener ''keydown'' (keydownListener p),
      SetLocalPreview (setLocalPreview p) None,
      RemoveEventListener ''keydown'' (keydownListener p)]"
    by (simp add: lifetime_def split_beta m unmount_def runEffects_first)
  assume ks: "list_all (keeps_dependencies p) es"
  have "filter (\<lambda>x. isPreview x \<or> isListener x)
      (snd (run (fst (mount p)) es) @ unmount (fst (run (fst (mount p)) es))) =
     (if registeredWith (fst (mount p)) = None
      then [SetLocalPreview (setLocalPreview p) (Some LocalVideoRef),
            AddEventListener ''keydown'' (keydownListener p)]
      else []) @
     [SetLocalPreview (setLocalPreview p) None,
      RemoveEventListener ''keydown'' (keydownListener p)]"
    by (rule run_keeps_dependencies [OF consistent_mount _ _ _ ks]) (simp_all add: m)
  then show "filter (\<lambda>x. isPreview x \<or> isListener x) (lifetime p es) =
        [SetLocalPreview (setLocalPreview p) (Some LocalVideoRef),
         AddEventListener ''keydown'' (keydownListener p),
         SetLocalPreview (setLocalPreview p) None,
         RemoveEventListener ''keydown'' (keydownListener p)]"
    by (simp add: lifetime_def split_beta m)
next
  assume d: "setLocalPreview q \<noteq> setLocalPreview (props (reached p es))"
  let ?s = "reached p es" and ?s1 = "fst (rerender (reached p es) q)"
  have "registeredWith ?s1 = Some (setLocalPreview (props ?s))"
    using registered_after_effects [OF consistent_reached [of p es]] by simp
  moreover have "effectsPending ?s1" "props ?s1 = q" by simp_all
  ultimately have "filter isPreview (snd (runEffects ?s1)) =
      [SetLocalPreview (setLocalPreview (props ?s)) None,
       SetLocalPreview (setLocalPreview q) (Some LocalVideoRef)]"
    using d by (subst runEffects_preview_changed [of ?s1 "setLocalPreview (props ?s)"]) simp_all
  then show "filter isPreview (snd (run ?s [Render q, RunEffects])) =
        filter isPreview (snd (step ?s RunEffects)) @
        [SetLocalPreview (setLocalPreview (props ?s)) None,
         SetLocalPreview (setLocalPreview q) (Some LocalVideoRef)]"
    by (simp add: split_beta)
qed

text \<open>
  A life with a shortcut, clicks and a re-render with another peeked list; a
  re-render with another \<open>setLocalPreview\<close>, after the effects of the mount ran.
\<close>

theorem mount_unmount_effects_witness:
  "list_all (keeps_dependencies (lobby_props []))
     [KeyDown \<lparr>shiftKey = True, key = ''M''\<rparr>, ClickJoin, RunEffects,
      Render (lobby_props [person ''b'' ''Bob'']), ClickCancel] \<and>
   filter (\<lambda>x. isPreview x \<or> isListener x) (lifetime (lobby_props [])
     [KeyDown \<lparr>shiftKey = True, key = ''M''\<rparr>, ClickJoin, RunEffects,
      Render (lobby_props [person ''b'' ''Bob'']), ClickCancel]) =
     [SetLocalPreview 5 (Some LocalVideoRef),
      AddEventListener ''keydown'' (keydownListener (lobby_props [])),
      SetLocalPreview 5 None,
      RemoveEventListener ''keydown'' (keydownListener (lobby_props []))] \<and>
   setLocalPreview (lobby_props [] \<lparr>setLocalPreview := 8\<rparr>) \<noteq>
     setLocalPreview (props (reached (lobby_props []) [RunEffects])) \<and>
   filter isPreview (snd (run (reached (lobby_props []) [RunEffects])
     [Render (lobby_props [] \<lparr>setLocalPreview := 8\<rparr>), RunEffects])) =
     [SetLocalPreview 5 None, SetLocalPreview 8 (Some LocalVideoRef)]"
proof -
  let ?es = "[KeyDown \<lparr>shiftKey = True, key = ''M''\<rparr>, ClickJoin, RunEffects,
      Render (lobby_props [person ''b'' ''Bob'']), ClickCancel]"
  let ?q = "lobby_props [] \<lparr>setLocalPreview := 8\<rparr>"
  have k: "list_all (keeps_dependencies (lobby_props [])) ?es"
    by (simp add: lobby_props_def toggleVideo_def toggleAudio_def)
  have pr: "props (reached (lobby_props []) [RunEffects]) = lobby_props []"
    by (simp add: reached_def mount_def)
  have fl: "snd (step (reached (lobby_props []) [RunEffects]) RunEffects) = []"
    by (simp add: reached_def runEffects_def [of "fst (runEffects _)"])
  have d: "setLocalPreview ?q \<noteq> setLocalPreview (props (reached (lobby_props []) [RunEffects]))"
    by (simp add: pr) (simp add: lobby_props_def)
  have five: "setLocalPreview (lobby_props []) = 5" "setLocalPreview ?q = 8"
    by (simp_all add: lobby_props_def)
  from k mount_unmount_effects [of "lobby_props []" ?es]
  have a: "filter (\<lambda>x. isPreview x \<or> isListener x) (lifetime (lobby_props []) ?es) =
     [SetLocalPreview 5 (Some LocalVideoRef),
      AddEventListener ''keydown'' (keydownListener (lobby_props [])),
      SetLocalPreview 5 None,
      RemoveEventListener ''keydown'' (keydownListener (lobby_props []))]"
    by (simp only: five)
  from d mount_unmount_effects [of "lobby_props []" "[RunEffects]" ?q]
  have "filter isPreview (snd (run (reached (lobby_props []) [RunEffects])
       [Render ?q, RunEffects])) =
     filter isPreview (snd (step (reached (lobby_props []) [RunEffects]) RunEffects)) @
     [SetLocalPreview 5 None, SetLocalPreview 8 (Some LocalVideoRef)]"
    by (simp only: pr five) blast
  then have b: "filter isPreview (snd (run (reached (lobby_props []) [RunEffects])
       [Render ?q, RunEffects])) =
     [SetLocalPreview 5 None, SetLocalPreview 8 (Some LocalVideoRef)]"
    by (simp only: fl filter.simps append_Nil)
  from k a d b show ?thesis by blast
qed

section \<open>Omitted flags\<close>

text \<open>
  Neither flag is read by any part of the render but its own default.
\<close>

lemma participantName_flags:
  "participantName (p\<lparr>isCallFull := v\<rparr>) = participantName p"
  "participantName (p\<lparr>isGroupCall := v\<rparr>) = participantName p"
  by (simp_all add: fun_eq_iff participantName_def)

lemma participantNames_flags:
  "participantNames (p\<lparr>isCallFull := v\<rparr>) = participantNames p"
  "participantNames (p\<lparr>isGroupCall := v\<rparr>) = participantNames p"
  "hasYou (p\<lparr>isCallFull := v\<rparr>) = hasYou p"
  "hasYou (p\<lparr>isGroupCall := v\<rparr>) = hasYou p"
  by (simp_all add: participantNames_def participantName_flags hasYou_def)

lemma summary_flags:
  "summary (p\<lparr>isCallFull := v\<rparr>) = summary p"
  "summary (p\<lparr>isGroupCall := v\<rparr>) = summary p"
  by (simp_all add: summary_def participantNames_flags cong: if_cong)

lemma toggles_flags:
  "toggleVideo (p\<lparr>isCallFull := v\<rparr>) = toggleVideo p"
  "toggleAudio (p\<lparr>isCallFull := v\<rparr>) = toggleAudio p"
  "keydownListener (p\<lparr>isCallFull := v\<rparr>) = keydownListener p"
  "toggleVideo (p\<lparr>isGroupCall := v\<rparr>) = toggleVideo p"
  "toggleAudio (p\<lparr>isGroupCall := v\<rparr>) = toggleAudio p"
  by (simp_all add: toggleVideo_def toggleAudio_def keydownListener_def)

lemma buttons_flags:
  "videoButtonType (p\<lparr>isCallFull := v\<rparr>) = videoButtonType p"
  "audioButtonType (p\<lparr>isCallFull := v\<rparr>) = audioButtonType p"
  "joinHandler (p\<lparr>isCallFull := v\<rparr>) = joinHandler p"
  "videoButtonType (p\<lparr>isGroupCall := v\<rparr>) = videoButtonType p"
  "audioButtonType (p\<lparr>isGroupCall := v\<rparr>) = audioButtonType p"
  "joinHandler (p\<lparr>isGroupCall := v\<rparr>) = joinHandler p"
  "canJoin (p\<lparr>isGroupCall := v\<rparr>) c = canJoin p c"
  "joinButtonChildren (p\<lparr>isGroupCall := v\<rparr>) c = joinButtonChildren p c"
  by (simp_all add: videoButtonType_def audioButtonType_def joinHandler_def canJoin_def
        joinButtonChildren_def)

lemma join_isCallFull_default:
  "canJoin (p\<lparr>isCallFull := None\<rparr>) c = canJoin (p\<lparr>isCallFull := Some False\<rparr>) c"
  "joinButtonChildren (p\<lparr>isCallFull := None\<rparr>) c =
     joinButtonChildren (p\<lparr>isCallFull := Some False\<rparr>) c"
  by (simp_all add: canJoin_def joinButtonChildren_def default_false_def)

lemma render_isCallFull_default:
  "CallingLobby (p\<lparr>isCallFull := None\<rparr>) c = CallingLobby (p\<lparr>isCallFull := Some False\<rparr>) c"
  by (simp add: CallingLobby_def summary_flags toggles_flags buttons_flags
        join_isCallFull_default default_false_def cong: if_cong)

lemma render_isGroupCall_default:
  "CallingLobby (p\<lparr>isGroupCall := None\<rparr>) c = CallingLobby (p\<lparr>isGroupCall := Some False\<rparr>) c"
  by (simp add: CallingLobby_def summary_flags toggles_flags buttons_flags default_false_def
        cong: if_cong)

lemma isCallFull_None: "isCallFull q = None \<Longrightarrow> q\<lparr>isCallFull := None\<rparr> = q"
  by (cases q) simp

text \<open>
  Two instances that differ only in \<open>isCallFull\<close> of their props, undefined in one
  and false in the other, stay so under every event and make the same calls.
\<close>

lemma exec_props:
  "exec h (s\<lparr>props := q\<rparr>) = ((fst (exec h s))\<lparr>props := q\<rparr>, snd (exec h s))"
proof (induction h s rule: exec.induct)
  case (1 s)
  show ?case by simp
next
  case (2 b rest s)
  have "exec (SetIsCallConnecting b # rest) (s\<lparr>props := q\<rparr>) =
      exec rest ((s\<lparr>queued := queued s @ [b]\<rparr>)\<lparr>props := q\<rparr>)"
    by (cases s) simp
  also note 2
  finally show ?case by simp
next
  case (3 e rest s)
  then show ?case by (simp add: split_beta)
qed

lemma exec_keeps_props: "props (fst (exec h s)) = props s"
  by (induction h s rule: exec.induct) (simp_all add: split_beta)

lemma runEffects_isCallFull:
  "runEffects (s\<lparr>props := (props s)\<lparr>isCallFull := v\<rparr>\<rparr>) =
     ((fst (runEffects s))\<lparr>props := (props s)\<lparr>isCallFull := v\<rparr>\<rparr>, snd (runEffects s))"
  unfolding runEffects_def Let_def option.case_eq_if
  by (cases s) (auto simp: toggles_flags)

lemma rerender_isCallFull_default:
  "rerender (s\<lparr>props := (props s)\<lparr>isCallFull := Some False\<rparr>\<rparr>)
           (q\<lparr>isCallFull := Some False\<rparr>) =
         ((fst (rerender s (q\<lparr>isCallFull := None\<rparr>)))
            \<lparr>props := (props (fst (rerender s (q\<lparr>isCallFull := None\<rparr>))))
               \<lparr>isCallFull := Some False\<rparr>\<rparr>,
      snd (rerender s (q\<lparr>isCallFull := None\<rparr>)))"
  unfolding rerender_def runEffects_isCallFull split_beta Let_def
  by (cases "fst (runEffects s)") (simp add: render_isCallFull_default del: last.simps)

lemma click_isCallFull_default:
  assumes n: "isCallFull (props s) = None"
  shows "click b (s\<lparr>props := (props s)\<lparr>isCallFull := Some False\<rparr>\<rparr>) =
           ((fst (click b s))\<lparr>props := (props (fst (click b s)))\<lparr>isCallFull := Some False\<rparr>\<rparr>,
            snd (click b s))"
    and "isCallFull (props (fst (click b s))) = None"
proof -
  define h where "h = (if disabled b then [] else case onClick b of None \<Rightarrow> [] | Some h \<Rightarrow> h)"
  let ?f = "(props s)\<lparr>isCallFull := Some False\<rparr>"
  let ?s1 = "fst (exec h s)"
  have ex: "(if disabled b then (t, [])
             else case onClick b of None \<Rightarrow> (t, []) | Some h \<Rightarrow> exec h t) = exec h t" for t
    by (simp add: h_def split: option.splits)
  have p1: "props ?s1 = props s" by (rule exec_keeps_props)
  have c: "click b t =
      (if queued (fst (exec h t)) = [] then exec h t
       else (fst (rerender (fst (exec h t)) (props (fst (exec h t)))),
             snd (exec h t) @ snd (rerender (fst (exec h t)) (props (fst (exec h t))))))" for t
    unfolding click_def ex by (simp add: split_beta)
  have e: "exec h (s\<lparr>props := ?f\<rparr>) = (?s1\<lparr>props := ?f\<rparr>, snd (exec h s))"
    by (rule exec_props)
  have r: "rerender (?s1\<lparr>props := ?f\<rparr>) ?f =
      ((fst (rerender ?s1 (props s)))\<lparr>props := ?f\<rparr>, snd (rerender ?s1 (props s)))"
    using rerender_isCallFull_default [of ?s1 "props s"] n
    by (simp add: p1 isCallFull_None)
  show "click b (s\<lparr>props := ?f\<rparr>) =
      ((fst (click b s))\<lparr>props := (props (fst (click b s)))\<lparr>isCallFull := Some False\<rparr>\<rparr>,
       snd (click b s))"
    unfolding c e by (simp add: p1 r)
  show "isCallFull (props (fst (click b s))) = None"
    unfolding c using n by (simp add: p1)
qed

lemma step_isCallFull_default:
  assumes n: "isCallFull (props s) = None"
  shows "step (s\<lparr>props := (props s)\<lparr>isCallFull := Some False\<rparr>\<rparr>) (withCallFull (Some False) e) =
           ((fst (step s (withCallFull None e)))
              \<lparr>props := (props (fst (step s (withCallFull None e))))\<lparr>isCallFull := Some False\<rparr>\<rparr>,
            snd (step s (withCallFull None e)))"
    and "isCallFull (props (fst (step s (withCallFull None e)))) = None"
proof -
  show "step (s\<lparr>props := (props s)\<lparr>isCallFull := Some False\<rparr>\<rparr>) (withCallFull (Some False) e) =
           ((fst (step s (withCallFull None e)))
              \<lparr>props := (props (fst (step s (withCallFull None e))))\<lparr>isCallFull := Some False\<rparr>\<rparr>,
            snd (step s (withCallFull None e)))"
  proof (cases e)
    case (Render q)
    show ?thesis
      unfolding Render withCallFull.simps step.simps by (rule rerender_isCallFull_default)
  next
    case RunEffects
    show ?thesis
      unfolding RunEffects withCallFull.simps step.simps
      by (simp add: runEffects_isCallFull)
  next
    case ClickJoin
    show ?thesis
      unfolding ClickJoin withCallFull.simps step.simps
      using click_isCallFull_default(1) [OF n] by simp
  next
    case ClickCancel
    show ?thesis
      unfolding ClickCancel withCallFull.simps step.simps
      using click_isCallFull_default(1) [OF n] by simp
  qed simp_all
  show "isCallFull (props (fst (step s (withCallFull None e)))) = None"
    using n by (cases e) (simp_all add: click_isCallFull_default(2))
qed

lemma run_isCallFull_default:
  "isCallFull (props s) = None \<Longrightarrow>
   run (s\<lparr>props := (props s)\<lparr>isCallFull := Some False\<rparr>\<rparr>) (map (withCallFull (Some False)) es) =
     ((fst (run s (map (withCallFull None) es)))
        \<lparr>props := (props (fst (run s (map (withCallFull None) es))))\<lparr>isCallFull := Some False\<rparr>\<rparr>,
      snd (run s (map (withCallFull None) es)))"
proof (induction es arbitrary: s)
  case Nil
  show ?case by simp
next
  case (Cons e es)
  note st = step_isCallFull_default [OF Cons.prems, of e]
  note ih = Cons.IH [OF st(2)]
  show ?case
    by (simp add: st(1) ih split_beta Let_def del: step.simps)
qed

lemma unmount_isCallFull:
  "unmount (s\<lparr>props := (props s)\<lparr>isCallFull := v\<rparr>\<rparr>) = unmount s"
  by (simp add: unmount_def runEffects_isCallFull split_beta)

text \<open>
  C9. With \<open>isCallFull\<close> undefined the render is the render with \<open>isCallFull\<close>
  false, and so are the calls of a whole life and the tree committed after any
  events, when every props received has it undefined on one side and false on the
  other. With \<open>isGroupCall\<close> undefined the render is the render with \<open>isGroupCall\<close>
  false, and there is no summary element.
\<close>

theorem omitted_flags_default_false:
  "CallingLobby (p\<lparr>isCallFull := None\<rparr>) connecting =
     CallingLobby (p\<lparr>isCallFull := Some False\<rparr>) connecting \<and>
   lifetime (p\<lparr>isCallFull := None\<rparr>) (map (withCallFull None) es) =
     lifetime (p\<lparr>isCallFull := Some False\<rparr>) (map (withCallFull (Some False)) es) \<and>
   rendered (reached (p\<lparr>isCallFull := None\<rparr>) (map (withCallFull None) es)) =
     rendered (reached (p\<lparr>isCallFull := Some False\<rparr>) (map (withCallFull (Some False)) es)) \<and>
   CallingLobby (p\<lparr>isGroupCall := None\<rparr>) connecting =
     CallingLobby (p\<lparr>isGroupCall := Some False\<rparr>) connecting \<and>
   info (CallingLobby (p\<lparr>isGroupCall := None\<rparr>) connecting) = None"
proof -
  let ?n = "p\<lparr>isCallFull := None\<rparr>" and ?f = "p\<lparr>isCallFull := Some False\<rparr>"
  let ?en = "map (withCallFull None) es" and ?ef = "map (withCallFull (Some False)) es"
  let ?m = "fst (mount ?n)"
  have n: "isCallFull (props ?m) = None"
    by (simp add: mount_def)
  have m: "fst (mount ?f) = ?m\<lparr>props := (props ?m)\<lparr>isCallFull := Some False\<rparr>\<rparr>"
    "snd (mount ?f) = snd (mount ?n)"
    by (simp_all add: mount_def render_isCallFull_default)
  note r = run_isCallFull_default [OF n, of es]
  have l: "lifetime ?n ?en = lifetime ?f ?ef"
    by (simp add: lifetime_def split_beta Let_def m r unmount_isCallFull)
  have t: "rendered (reached ?n ?en) = rendered (reached ?f ?ef)"
    by (simp add: reached_def m r)
  have i: "info (CallingLobby (p\<lparr>isGroupCall := None\<rparr>) connecting) = None"
    by (simp add: CallingLobby_def default_false_def)
  from l t i render_isCallFull_default render_isGroupCall_default show ?thesis
    by simp
qed

text \<open>
  A life with two clicks on the join button around a re-render.
\<close>

theorem omitted_flags_default_false_witness:
  "lifetime (lobby_props [person ''b'' ''Bob''] \<lparr>isCallFull := None\<rparr>)
     (map (withCallFull None) [ClickJoin, Render (lobby_props []), ClickJoin]) =
   lifetime (lobby_props [person ''b'' ''Bob''] \<lparr>isCallFull := Some False\<rparr>)
     (map (withCallFull (Some False)) [ClickJoin, Render (lobby_props []), ClickJoin]) \<and>
   children (joinButton (CallingLobby (lobby_props [person ''b'' ''Bob''] \<lparr>isCallFull := None\<rparr>) False))
     = RText ''calling__join'' \<and>
   children (joinButton (CallingLobby (lobby_props [person ''b'' ''Bob''] \<lparr>isCallFull := Some False\<rparr>) False))
     = RText ''calling__join'' \<and>
   info (CallingLobby (lobby_props [person ''b'' ''Bob''] \<lparr>isGroupCall := None\<rparr>) False) = None"
proof -
  let ?p = "lobby_props [person ''b'' ''Bob'']"
  let ?es = "[ClickJoin, Render (lobby_props []), ClickJoin]"
  note t = omitted_flags_default_false [of ?p False ?es]
  have f: "children (joinButton (CallingLobby (?p\<lparr>isCallFull := Some False\<rparr>) False))
     = RText ''calling__join''"
    by (simp add: CallingLobby_def joinButtonChildren_def default_false_def lobby_props_def
          echo_i18n_def)
  have r: "CallingLobby (?p\<lparr>isCallFull := None\<rparr>) False =
      CallingLobby (?p\<lparr>isCallFull := Some False\<rparr>) False"
    using t by (rule conjunct1)
  show ?thesis
  proof (intro conjI)
    show "lifetime (?p\<lparr>isCallFull := None\<rparr>) (map (withCallFull None) ?es) =
        lifetime (?p\<lparr>isCallFull := Some False\<rparr>) (map (withCallFull (Some False)) ?es)"
      using t by (rule conjunct1 [OF conjunct2])
    show "children (joinButton (CallingLobby (?p\<lparr>isCallFull := None\<rparr>) False)) =
        RText ''calling__join''"
      by (simp only: r f)
    show "children (joinButton (CallingLobby (?p\<lparr>isCallFull := Some False\<rparr>) False)) =
        RText ''calling__join''"
      by (rule f)
    show "info (CallingLobby (?p\<lparr>isGroupCall := None\<rparr>) False) = None"
      using t by (rule conjunct2 [OF conjunct2 [OF conjunct2 [OF conjunct2]]])
  qed
qed

end
